theory Spec2Isabelle
  imports Main "HOL-Library.Sublist"
begin

section \<open>Byte strings\<close>

text \<open>
  Python \<open>bytes\<close> and \<open>str\<close> values are lists of characters. The line terminator
  of \<open>LZMAIterReader.readline\<close> is the two bytes \<open>b'\r\n'\<close>.
\<close>

type_synonym bytes = "char list"

definition CR :: char where
  "CR = CHR 0x0D"

definition LF :: char where
  "LF = CHR 0x0A"

definition CRLF :: bytes where
  "CRLF = [CR, LF]"

text \<open>
  \<open>buf.find(sub)\<close>: the lowest index at which \<open>sub\<close> occurs in \<open>buf\<close>, or \<open>-1\<close>.
\<close>

fun find_bytes :: "bytes \<Rightarrow> bytes \<Rightarrow> int" where
  "find_bytes [] sub = (if sub = [] then 0 else - 1)"
| "find_bytes (x # xs) sub =
     (if prefix sub (x # xs) then 0
      else (let r = find_bytes xs sub in if r = - 1 then - 1 else r + 1))"

subsection \<open>Facts about searching for the line terminator\<close>

lemma CR_neq_LF: "CR \<noteq> LF" "LF \<noteq> CR"
  by (simp_all add: CR_def LF_def)

lemma find_CRLF_Nil: "find_bytes [] CRLF = - 1"
  by (simp add: CRLF_def)

lemma find_CRLF_Cons:
  "find_bytes (x # xs) CRLF =
     (if x = CR \<and> (\<exists>r. xs = LF # r) then 0
      else if find_bytes xs CRLF = - 1 then - 1 else find_bytes xs CRLF + 1)"
  by (cases xs) (auto simp: CRLF_def Let_def)

lemma find_bytes_ge: "- 1 \<le> find_bytes b sub"
  by (induction b) (auto simp: Let_def)

declare find_bytes.simps [simp del]

lemma find_bytes_CRLF_bound:
  "find_bytes b CRLF \<noteq> - 1 \<Longrightarrow> 0 \<le> find_bytes b CRLF \<and> nat (find_bytes b CRLF) + 2 \<le> length b"
proof (induction b)
  case Nil
  then show ?case by (simp add: find_CRLF_Nil)
next
  case (Cons x xs)
  then show ?case
    using find_bytes_ge[of xs CRLF]
    by (auto simp: find_CRLF_Cons split: if_splits)
qed

lemma find_bytes_append:
  "find_bytes a CRLF \<noteq> - 1 \<Longrightarrow> find_bytes (a @ b) CRLF = find_bytes a CRLF"
proof (induction a)
  case Nil
  then show ?case by (simp add: find_CRLF_Nil)
next
  case (Cons x xs)
  then show ?case
    by (cases xs) (auto simp: find_CRLF_Cons find_CRLF_Nil split: if_splits)
qed

lemma find_bytes_take:
  "find_bytes b CRLF \<noteq> - 1 \<Longrightarrow>
     find_bytes (take (nat (find_bytes b CRLF + 2)) b) CRLF = find_bytes b CRLF"
proof (induction b)
  case Nil
  then show ?case by (simp add: find_CRLF_Nil)
next
  case (Cons x xs)
  show ?case
  proof (cases "x = CR \<and> (\<exists>r. xs = LF # r)")
    case True
    then show ?thesis by (auto simp: find_CRLF_Cons)
  next
    case False
    with Cons.prems have ne: "find_bytes xs CRLF \<noteq> - 1"
      by (auto simp: find_CRLF_Cons split: if_splits)
    from find_bytes_CRLF_bound[OF ne] have nn: "0 \<le> find_bytes xs CRLF" by simp
    have eq: "find_bytes (x # xs) CRLF = find_bytes xs CRLF + 1"
      using False ne by (simp add: find_CRLF_Cons)
    have t: "take (nat (find_bytes (x # xs) CRLF + 2)) (x # xs)
               = x # take (nat (find_bytes xs CRLF + 2)) xs"
      using nn by (simp add: eq nat_add_distrib take_Cons')
    have np: "\<not> (x = CR \<and> (\<exists>r. take (nat (find_bytes xs CRLF + 2)) xs = LF # r))"
      using False nn by (cases xs) (auto simp: nat_add_distrib)
    show ?thesis
      unfolding t using np Cons.IH[OF ne] ne eq by (simp add: find_CRLF_Cons)
  qed
qed

lemma take_find_ends:
  "find_bytes b CRLF \<noteq> - 1 \<Longrightarrow>
     take (nat (find_bytes b CRLF + 2)) b = take (nat (find_bytes b CRLF)) b @ CRLF"
proof (induction b)
  case Nil
  then show ?case by (simp add: find_CRLF_Nil)
next
  case (Cons x xs)
  show ?case
  proof (cases "x = CR \<and> (\<exists>r. xs = LF # r)")
    case True
    then have "find_bytes (x # xs) CRLF = 0" by (simp add: find_CRLF_Cons)
    with True show ?thesis by (auto simp: CRLF_def)
  next
    case False
    with Cons.prems have ne: "find_bytes xs CRLF \<noteq> - 1"
      by (auto simp: find_CRLF_Cons split: if_splits)
    from find_bytes_CRLF_bound[OF ne] have nn: "0 \<le> find_bytes xs CRLF" by simp
    have eq: "find_bytes (x # xs) CRLF = find_bytes xs CRLF + 1"
      using False ne by (simp add: find_CRLF_Cons)
    have n2: "nat (find_bytes xs CRLF + 1 + 2) = Suc (nat (find_bytes xs CRLF + 2))"
      and n1: "nat (find_bytes xs CRLF + 1) = Suc (nat (find_bytes xs CRLF))"
      using nn by simp_all
    show ?thesis
      unfolding eq n2 n1 using Cons.IH[OF ne] by simp
  qed
qed

section \<open>LZMAIterReader (library.py)\<close>

text \<open>
  The reader holds the iterator of compressed blocks (the blocks not yet popped), the
  decompressed bytes not yet handed out (\<open>chunk\<close>), the line buffer, and the state of the
  \<open>lzma.LZMADecompressor\<close>. The decompressor belongs to Python's standard library: it is
  the parameter \<open>decompress\<close>, which maps the decompressor state and a block of input to
  the new state and the bytes decoded, or to \<open>None\<close> when the library raises.
\<close>

record 'd LZMAIterReader =
  iter :: "bytes list"
  chunk :: bytes
  linebuf :: bytes
  lzmad :: 'd

type_synonym 'd decompressor = "'d \<Rightarrow> bytes \<Rightarrow> ('d \<times> bytes) option"

definition new_reader :: "'d \<Rightarrow> bytes list \<Rightarrow> 'd LZMAIterReader" where
  "new_reader d0 blocks = \<lparr>iter = blocks, chunk = [], linebuf = [], lzmad = d0\<rparr>"

text \<open>
  \<open>read\<close>: when \<open>chunk\<close> is empty the next block is popped (\<open>next\<close> raises
  \<open>StopIteration\<close> on an exhausted iterator) and decompressed; then the whole of
  \<open>chunk\<close> is returned and \<open>chunk\<close> is left empty.
\<close>

datatype 'd read_result =
    Data bytes "'d LZMAIterReader"
  | Exhausted
  | Decompress_failed

definition hand_out :: "'d LZMAIterReader \<Rightarrow> 'd read_result" where
  "hand_out s =
     (let n = length (chunk s);
          amt = min n (length (chunk s));
          rtn = take amt (chunk s)
      in Data rtn (s\<lparr>chunk := drop amt (chunk s)\<rparr>))"

definition read :: "'d decompressor \<Rightarrow> 'd LZMAIterReader \<Rightarrow> 'd read_result" where
  "read decompress s =
     (if length (chunk s) = 0 then
        (case iter s of
           [] \<Rightarrow> Exhausted
         | data # rest \<Rightarrow>
             (case decompress (lzmad s) data of
                None \<Rightarrow> Decompress_failed
              | Some (d', out) \<Rightarrow> hand_out (s\<lparr>iter := rest, lzmad := d', chunk := out\<rparr>)))
      else hand_out s)"

text \<open>
  \<open>readline\<close>: the result is a line with the reader after it, \<open>StopIteration\<close> with
  the reader as it stands, or the exception of the decompressor.
\<close>

datatype 'd line_result =
    Line bytes "'d LZMAIterReader"
  | StopIteration "'d LZMAIterReader"
  | Raised

definition reader_size :: "'d LZMAIterReader \<Rightarrow> nat" where
  "reader_size s = 2 * length (iter s) + (if chunk s = [] then 0 else 1)"

lemma read_Data_size:
  "read decompress s = Data newdata s' \<Longrightarrow> reader_size s' < reader_size s"
  by (auto simp: read_def hand_out_def reader_size_def
           split: if_splits list.splits option.splits)

function readline :: "'d decompressor \<Rightarrow> 'd LZMAIterReader \<Rightarrow> 'd line_result" where
  "readline decompress s =
     (let idx = find_bytes (linebuf s) CRLF in
      if idx \<noteq> - 1 then
        Line (take (nat (idx + 2)) (linebuf s))
             (s\<lparr>linebuf := drop (nat (idx + 2)) (linebuf s)\<rparr>)
      else
        (case read decompress s of
           Exhausted \<Rightarrow> StopIteration s
         | Decompress_failed \<Rightarrow> Raised
         | Data newdata s' \<Rightarrow>
             if length newdata = 0 then StopIteration s'
             else readline decompress (s'\<lparr>linebuf := linebuf s' @ newdata\<rparr>)))"
  by pat_completeness auto
termination
  by (relation "measure (\<lambda>(decompress, s). reader_size s)")
     (auto simp: reader_size_def dest!: read_Data_size)

declare readline.simps [simp del]

lemma readline_Line_order:
  "readline decompress s = Line l s' \<Longrightarrow>
     reader_size s' < reader_size s \<or>
     (reader_size s' = reader_size s \<and> length (linebuf s') < length (linebuf s))"
proof (induction decompress s rule: readline.induct)
  case (1 decompress s)
  show ?case
  proof (cases "find_bytes (linebuf s) CRLF = - 1")
    case True
    with "1.prems" obtain newdata s1 where
      r: "read decompress s = Data newdata s1" and ne: "length newdata \<noteq> 0"
      and rl: "readline decompress (s1\<lparr>linebuf := linebuf s1 @ newdata\<rparr>) = Line l s'"
      by (subst (asm) readline.simps) (auto split: read_result.splits if_splits)
    from "1.IH"[OF refl _ r ne rl] True
    have "reader_size s' \<le> reader_size (s1\<lparr>linebuf := linebuf s1 @ newdata\<rparr>)"
      by auto
    moreover have "reader_size (s1\<lparr>linebuf := linebuf s1 @ newdata\<rparr>) = reader_size s1"
      by (simp add: reader_size_def)
    ultimately show ?thesis using read_Data_size[OF r] by simp
  next
    case False
    from find_bytes_CRLF_bound[OF False]
    have nn: "0 \<le> find_bytes (linebuf s) CRLF"
      and le: "nat (find_bytes (linebuf s) CRLF) + 2 \<le> length (linebuf s)" by simp_all
    from False "1.prems"
    have "s' = s\<lparr>linebuf := drop (nat (find_bytes (linebuf s) CRLF + 2)) (linebuf s)\<rparr>"
      by (subst (asm) readline.simps) (simp add: Let_def)
    then show ?thesis using nn le by (simp add: reader_size_def)
  qed
qed

definition reader_order :: "('d LZMAIterReader \<times> 'd LZMAIterReader) set" where
  "reader_order = inv_image (less_than <*lex*> less_than) (\<lambda>s. (reader_size s, length (linebuf s)))"

text \<open>
  Iterating the reader (\<open>__next__\<close> is \<open>readline\<close>): the lines yielded until
  \<open>readline\<close> raises \<open>StopIteration\<close> or the decompressor fails.
\<close>

function lines :: "'d decompressor \<Rightarrow> 'd LZMAIterReader \<Rightarrow> bytes list" where
  "lines decompress s =
     (case readline decompress s of
        Line l s' \<Rightarrow> l # lines decompress s'
      | StopIteration s' \<Rightarrow> []
      | Raised \<Rightarrow> [])"
  by pat_completeness auto
termination
  by (relation "inv_image reader_order snd")
     (auto simp: reader_order_def dest!: readline_Line_order)

declare lines.simps [simp del]

text \<open>
  The reference the reader is compared with, written from the specification: the decoded
  text split on the line terminator, every line keeping its terminator. Bytes after the
  last terminator form no line (the specification calls the lines complete and has the
  trailing partial bytes discarded).
\<close>

fun split_crlf :: "bytes \<Rightarrow> bytes \<Rightarrow> bytes list" where
  "split_crlf cur [] = []"
| "split_crlf cur [a] = []"
| "split_crlf cur (a # b # rest) =
     (if a = CR \<and> b = LF then (cur @ [a, b]) # split_crlf [] rest
      else split_crlf (cur @ [a]) (b # rest))"

definition split_lines :: "bytes \<Rightarrow> bytes list" where
  "split_lines text = split_crlf [] text"

text \<open>
  The bytes a reader will get to see: its line buffer, the bytes of \<open>chunk\<close>, and the
  output of the decompressor for the blocks still in the iterator, up to the first block
  for which the decompressor returns no bytes or raises.
\<close>

fun pending_text :: "'d decompressor \<Rightarrow> 'd \<Rightarrow> bytes list \<Rightarrow> bytes" where
  "pending_text decompress d [] = []"
| "pending_text decompress d (c # cs) =
     (case decompress d c of
        None \<Rightarrow> []
      | Some (d', out) \<Rightarrow> if out = [] then [] else out @ pending_text decompress d' cs)"

definition text_ahead :: "'d decompressor \<Rightarrow> 'd LZMAIterReader \<Rightarrow> bytes" where
  "text_ahead decompress s = linebuf s @ chunk s @ pending_text decompress (lzmad s) (iter s)"

text \<open>
  A decompressor to run the reader on concrete blocks: the format is one header byte
  followed by the payload stored as it is, and the state counts the header bytes still
  expected. As with an \<open>.xz\<close> stream, whose first twelve bytes are the stream header, a
  block that ends inside the header decodes to no bytes.
\<close>

definition framed_decompress :: "nat decompressor" where
  "framed_decompress n data = Some (n - length data, drop n data)"

lemma split_crlf_find:
  "split_crlf cur t =
     (if find_bytes t CRLF = - 1 then []
      else (cur @ take (nat (find_bytes t CRLF + 2)) t)
             # split_crlf [] (drop (nat (find_bytes t CRLF + 2)) t))"
proof (induction cur t rule: split_crlf.induct)
  case (1 cur)
  show ?case by (simp add: find_CRLF_Nil)
next
  case (2 cur a)
  show ?case by (simp add: find_CRLF_Cons find_CRLF_Nil)
next
  case (3 cur a b rest)
  show ?case
  proof (cases "a = CR \<and> b = LF")
    case True
    then show ?thesis by (simp add: find_CRLF_Cons)
  next
    case False
    have f: "find_bytes (a # b # rest) CRLF =
               (if find_bytes (b # rest) CRLF = - 1 then - 1 else find_bytes (b # rest) CRLF + 1)"
      using False by (subst find_CRLF_Cons) auto
    show ?thesis
    proof (cases "find_bytes (b # rest) CRLF = - 1")
      case True
      with False "3.IH"(2) f show ?thesis by simp
    next
      case ne: False
      define i where "i = find_bytes (b # rest) CRLF"
      from find_bytes_CRLF_bound[OF ne] have nn: "0 \<le> i" by (simp add: i_def)
      have fi: "find_bytes (a # b # rest) CRLF = i + 1"
        using f ne by (simp add: i_def)
      have n2: "nat (i + 1 + 2) = Suc (nat (i + 2))"
        using nn by simp
      have ne': "i + 1 \<noteq> - 1" using nn by simp
      have "split_crlf cur (a # b # rest) = split_crlf (cur @ [a]) (b # rest)"
        using False by auto
      also have "\<dots> = ((cur @ [a]) @ take (nat (i + 2)) (b # rest))
                   # split_crlf [] (drop (nat (i + 2)) (b # rest))"
        using "3.IH"(2)[OF False] ne by (simp add: i_def del: find_CRLF_Cons)
      also have "\<dots> = (cur @ take (Suc (nat (i + 2))) (a # b # rest))
                   # split_crlf [] (drop (Suc (nat (i + 2))) (a # b # rest))"
        by simp
      finally show ?thesis
        unfolding fi n2 using ne' by simp
    qed
  qed
qed

lemma split_lines_find:
  "split_lines t =
     (if find_bytes t CRLF = - 1 then []
      else take (nat (find_bytes t CRLF + 2)) t
             # split_lines (drop (nat (find_bytes t CRLF + 2)) t))"
  unfolding split_lines_def by (subst split_crlf_find) simp

lemma read_Data_text:
  "read decompress s = Data newdata s1 \<Longrightarrow> newdata \<noteq> [] \<Longrightarrow>
     text_ahead decompress (s1\<lparr>linebuf := linebuf s1 @ newdata\<rparr>) = text_ahead decompress s"
  by (auto simp: read_def hand_out_def text_ahead_def
           split: if_splits list.splits option.splits)

lemma read_end_text:
  "read decompress s = Data [] s1 \<or> read decompress s = Exhausted
     \<or> read decompress s = Decompress_failed \<Longrightarrow>
   text_ahead decompress s = linebuf s"
  by (auto simp: read_def hand_out_def text_ahead_def
           split: if_splits list.splits option.splits)

lemma readline_text:
  "(case readline decompress s of
      Line l s' \<Rightarrow>
        find_bytes (text_ahead decompress s) CRLF \<noteq> - 1 \<and>
        l = take (nat (find_bytes (text_ahead decompress s) CRLF + 2)) (text_ahead decompress s) \<and>
        text_ahead decompress s' =
          drop (nat (find_bytes (text_ahead decompress s) CRLF + 2)) (text_ahead decompress s)
    | StopIteration s' \<Rightarrow> find_bytes (text_ahead decompress s) CRLF = - 1
    | Raised \<Rightarrow> find_bytes (text_ahead decompress s) CRLF = - 1)"
proof (induction decompress s rule: readline.induct)
  case (1 decompress s)
  show ?case
  proof (cases "find_bytes (linebuf s) CRLF = - 1")
    case True
    show ?thesis
    proof (cases "read decompress s")
      case (Data newdata s1)
      show ?thesis
      proof (cases "newdata = []")
        case e: True
        with Data read_end_text[of decompress s s1] True show ?thesis
          by (subst readline.simps) simp
      next
        case ne: False
        have rl: "readline decompress s = readline decompress (s1\<lparr>linebuf := linebuf s1 @ newdata\<rparr>)"
          using True Data ne by (subst readline.simps) simp
        from "1.IH"[OF refl _ Data] True ne read_Data_text[OF Data ne]
        show ?thesis unfolding rl by (simp split: line_result.splits)
      qed
    next
      case Exhausted
      with read_end_text[of decompress s] True show ?thesis
        by (subst readline.simps) simp
    next
      case Decompress_failed
      with read_end_text[of decompress s] True show ?thesis
        by (subst readline.simps) simp
    qed
  next
    case False
    from find_bytes_CRLF_bound[OF False]
    have nn: "0 \<le> find_bytes (linebuf s) CRLF"
      and le: "nat (find_bytes (linebuf s) CRLF) + 2 \<le> length (linebuf s)" by simp_all
    have fa: "find_bytes (text_ahead decompress s) CRLF = find_bytes (linebuf s) CRLF"
      unfolding text_ahead_def by (rule find_bytes_append[OF False])
    have le': "nat (find_bytes (linebuf s) CRLF + 2) \<le> length (linebuf s)"
      using nn le by (simp add: nat_add_distrib)
    show ?thesis
      using False le' unfolding fa
      by (subst readline.simps) (simp add: Let_def text_ahead_def)
  qed
qed

lemma lines_split:
  "lines decompress s = split_lines (text_ahead decompress s)"
proof (induction decompress s rule: lines.induct)
  case (1 decompress s)
  show ?case
  proof (cases "readline decompress s")
    case (Line l s')
    with readline_text[of decompress s] "1.IH"[OF Line] show ?thesis
      by (subst lines.simps, subst split_lines_find) simp
  next
    case (StopIteration s')
    with readline_text[of decompress s] show ?thesis
      by (subst lines.simps, subst split_lines_find) simp
  next
    case Raised
    with readline_text[of decompress s] show ?thesis
      by (subst lines.simps, subst split_lines_find) simp
  qed
qed

text \<open>
  The outputs of the decompressor for the blocks in turn, and what it means for a line
  to end with the first terminator it contains.
\<close>

fun outputs :: "'d decompressor \<Rightarrow> 'd \<Rightarrow> bytes list \<Rightarrow> bytes list" where
  "outputs decompress d [] = []"
| "outputs decompress d (c # cs) =
     (case decompress d c of
        None \<Rightarrow> []
      | Some (d', out) \<Rightarrow> out # outputs decompress d' cs)"

definition ends_with_first_CRLF :: "bytes \<Rightarrow> bool" where
  "ends_with_first_CRLF l \<longleftrightarrow>
     2 \<le> length l \<and> drop (length l - 2) l = CRLF \<and> find_bytes l CRLF = int (length l) - 2"


subsection \<open>Properties of the reader\<close>

lemma ends_with_first_CRLF_take:
  assumes "find_bytes t CRLF \<noteq> - 1"
  shows "ends_with_first_CRLF (take (nat (find_bytes t CRLF + 2)) t)"
proof -
  let ?i = "find_bytes t CRLF"
  from find_bytes_CRLF_bound[OF assms] have nn: "0 \<le> ?i" and le: "nat ?i + 2 \<le> length t"
    by simp_all
  have len: "length (take (nat (?i + 2)) t) = nat ?i + 2"
    using nn le by (simp add: nat_add_distrib)
  have "drop (nat ?i) (take (nat (?i + 2)) t) = CRLF"
    using take_find_ends[OF assms] nn le by simp
  then show ?thesis
    unfolding ends_with_first_CRLF_def len using find_bytes_take[OF assms] nn by simp
qed

lemma readline_Line_ends:
  "readline decompress s = Line l s' \<Longrightarrow> ends_with_first_CRLF l"
  using readline_text[of decompress s] by (simp add: ends_with_first_CRLF_take)

lemma split_lines_ends: "l \<in> set (split_lines t) \<Longrightarrow> ends_with_first_CRLF l"
proof (induction "length t" arbitrary: t rule: less_induct)
  case less
  show ?case
  proof (cases "find_bytes t CRLF = - 1")
    case True
    with less.prems show ?thesis by (subst (asm) split_lines_find) simp
  next
    case False
    from find_bytes_CRLF_bound[OF False] have nn: "0 \<le> find_bytes t CRLF"
      and le: "nat (find_bytes t CRLF) + 2 \<le> length t" by simp_all
    from less.prems False
    have "l = take (nat (find_bytes t CRLF + 2)) t
            \<or> l \<in> set (split_lines (drop (nat (find_bytes t CRLF + 2)) t))"
      by (subst (asm) split_lines_find) simp
    then show ?thesis
    proof
      assume "l = take (nat (find_bytes t CRLF + 2)) t"
      then show ?thesis by (simp add: ends_with_first_CRLF_take[OF False])
    next
      assume m: "l \<in> set (split_lines (drop (nat (find_bytes t CRLF + 2)) t))"
      have "length (drop (nat (find_bytes t CRLF + 2)) t) < length t"
        using nn le by (simp add: nat_add_distrib)
      from less.hyps[OF this m] show ?thesis .
    qed
  qed
qed

lemma split_lines_concat:
  "\<exists>rest. t = concat (split_lines t) @ rest \<and> find_bytes rest CRLF = - 1"
proof (induction "length t" arbitrary: t rule: less_induct)
  case less
  show ?case
  proof (cases "find_bytes t CRLF = - 1")
    case True
    then have "split_lines t = []" by (subst split_lines_find) simp
    with True show ?thesis by simp
  next
    case False
    let ?n = "nat (find_bytes t CRLF + 2)"
    from find_bytes_CRLF_bound[OF False] have nn: "0 \<le> find_bytes t CRLF"
      and le: "nat (find_bytes t CRLF) + 2 \<le> length t" by simp_all
    have "length (drop ?n t) < length t"
      using nn le by (simp add: nat_add_distrib)
    from less.hyps[OF this] obtain rest where
      r: "drop ?n t = concat (split_lines (drop ?n t)) @ rest" and f: "find_bytes rest CRLF = - 1"
      by blast
    have sl: "split_lines t = take ?n t # split_lines (drop ?n t)"
      using False by (subst split_lines_find) simp
    have "t = take ?n t @ drop ?n t" by simp
    also have "\<dots> = concat (split_lines t) @ rest"
      unfolding sl using r by simp
    finally show ?thesis using f by blast
  qed
qed

lemma pending_text_whole:
  assumes streaming: "\<And>d a b d2 out. decompress d (a @ b) = Some (d2, out) \<Longrightarrow>
            \<exists>d1 o1 o2. decompress d a = Some (d1, o1) \<and> decompress d1 b = Some (d2, o2) \<and> out = o1 @ o2"
  shows "blocks \<noteq> [] \<Longrightarrow> decompress d0 (concat blocks) = Some (d1, plain) \<Longrightarrow>
         [] \<notin> set (outputs decompress d0 blocks) \<Longrightarrow>
         pending_text decompress d0 blocks = plain"
proof (induction blocks arbitrary: d0 plain rule: list_nonempty_induct)
  case (single c)
  then show ?case by auto
next
  case (cons c cs)
  from cons.prems(1) have "decompress d0 (c @ concat cs) = Some (d1, plain)" by simp
  from streaming[OF this] obtain d' o1 o2 where
    a: "decompress d0 c = Some (d', o1)" and b: "decompress d' (concat cs) = Some (d1, o2)"
    and t: "plain = o1 @ o2" by blast
  from cons.prems(2) a have ne: "o1 \<noteq> []" and rest: "[] \<notin> set (outputs decompress d' cs)"
    by auto
  from cons.IH[OF b rest] a ne t show ?case by simp
qed

lemma lines_whole_stream:
  assumes "\<And>d a b d2 out. decompress d (a @ b) = Some (d2, out) \<Longrightarrow>
            \<exists>d1 o1 o2. decompress d a = Some (d1, o1) \<and> decompress d1 b = Some (d2, o2) \<and> out = o1 @ o2"
    and "blocks \<noteq> []" and "decompress d0 (concat blocks) = Some (d1, plain)"
    and "[] \<notin> set (outputs decompress d0 blocks)"
  shows "lines decompress (new_reader d0 blocks) = split_lines plain"
  using pending_text_whole[of decompress blocks d0 d1 plain, OF assms]
  by (simp add: lines_split text_ahead_def new_reader_def)

lemma lines_stop_at_empty_output:
  "decompress d c = Some (d', []) \<Longrightarrow> lines decompress (new_reader d (c # rest)) = []"
  by (simp add: lines_split text_ahead_def new_reader_def split_lines_def)


text \<open>
  C10. Every line that \<open>readline\<close> returns, and so every line of the iteration, ends
  with CR LF and holds no earlier CR LF: the first occurrence found in it is its last two
  bytes. Lines are cut at CR LF only: when the bytes the reader gets to see hold no CR LF
  (their line breaks may be bare LF), no line is returned at all; and in general the
  lines, put together, are those bytes up to a remainder without CR LF, which yields no
  line.
\<close>

theorem readline_recognises_only_CRLF:
  "(\<forall>l s'. readline decompress s = Line l s' \<longrightarrow> ends_with_first_CRLF l) \<and>
   (\<forall>l \<in> set (lines decompress s). ends_with_first_CRLF l) \<and>
   (find_bytes (text_ahead decompress s) CRLF = - 1 \<longrightarrow>
      lines decompress s = [] \<and> (\<forall>l s'. readline decompress s \<noteq> Line l s')) \<and>
   (\<exists>rest. text_ahead decompress s = concat (lines decompress s) @ rest \<and>
            find_bytes rest CRLF = - 1)"
proof (intro conjI allI impI ballI)
  fix l s' assume "readline decompress s = Line l s'"
  then show "ends_with_first_CRLF l" by (rule readline_Line_ends)
next
  fix l assume "l \<in> set (lines decompress s)"
  then show "ends_with_first_CRLF l" by (simp add: lines_split split_lines_ends)
next
  assume "find_bytes (text_ahead decompress s) CRLF = - 1"
  then show "lines decompress s = []"
    unfolding lines_split by (subst split_lines_find) simp
next
  fix l s' assume "find_bytes (text_ahead decompress s) CRLF = - 1"
  then show "readline decompress s \<noteq> Line l s'"
    using readline_text[of decompress s] by auto
next
  show "\<exists>rest. text_ahead decompress s = concat (lines decompress s) @ rest \<and>
            find_bytes rest CRLF = - 1"
    unfolding lines_split by (rule split_lines_concat)
qed

theorem readline_recognises_only_CRLF_witness:
  "readline framed_decompress (new_reader 1 [''Ha'' @ [LF], ''b'' @ CRLF @ ''c''])
     = Line (''a'' @ [LF] @ ''b'' @ CRLF) \<lparr>iter = [], chunk = [], linebuf = ''c'', lzmad = 0\<rparr> \<and>
   ends_with_first_CRLF (''a'' @ [LF] @ ''b'' @ CRLF) \<and>
   lines framed_decompress (new_reader 1 [''Ha'' @ [LF], ''b'' @ CRLF @ ''c''])
     = [''a'' @ [LF] @ ''b'' @ CRLF] \<and>
   find_bytes (text_ahead framed_decompress (new_reader 1 [''Ha'' @ [LF], ''bc''])) CRLF = - 1 \<and>
   lines framed_decompress (new_reader 1 [''Ha'' @ [LF], ''bc'']) = []"
proof -
  let ?R = "new_reader 1 [''Ha'' @ [LF], ''b'' @ CRLF @ ''c'']"
  let ?R2 = "new_reader 1 [''Ha'' @ [LF], ''bc'']"
  have h1: "readline framed_decompress ?R
     = Line (''a'' @ [LF] @ ''b'' @ CRLF) \<lparr>iter = [], chunk = [], linebuf = ''c'', lzmad = 0\<rparr>"
    by code_simp
  have h2: "lines framed_decompress ?R = [''a'' @ [LF] @ ''b'' @ CRLF]"
    by code_simp
  have h3: "find_bytes (text_ahead framed_decompress ?R2) CRLF = - 1"
    by code_simp
  from readline_recognises_only_CRLF[of framed_decompress ?R] h1
  have c1: "ends_with_first_CRLF (''a'' @ [LF] @ ''b'' @ CRLF)" by blast
  from readline_recognises_only_CRLF[of framed_decompress ?R2] h3
  have c3: "lines framed_decompress ?R2 = []" by blast
  show ?thesis using h1 h2 h3 c1 c3 by simp
qed


text \<open>
  C1. The lines depend on where the block boundaries fall. The stream is the header byte
  \<open>H\<close> followed by two lines. Cut after the header, the first block decodes to no
  bytes, \<open>readline\<close> takes the empty result of \<open>read\<close> for the end of the input, and the
  iteration yields nothing; in one block with the first line, the same stream yields both
  lines, which is what decoding it at once and splitting gives.
\<close>

theorem lines_depend_on_block_boundaries:
  "lines framed_decompress (new_reader 1 [''H'', ''a'' @ CRLF, ''b'' @ CRLF]) = [] \<and>
   lines framed_decompress (new_reader 1 [''Ha'' @ CRLF, ''b'' @ CRLF]) = [''a'' @ CRLF, ''b'' @ CRLF] \<and>
   framed_decompress 1 (concat [''H'', ''a'' @ CRLF, ''b'' @ CRLF]) = Some (0, ''a'' @ CRLF @ ''b'' @ CRLF) \<and>
   split_lines (''a'' @ CRLF @ ''b'' @ CRLF) = [''a'' @ CRLF, ''b'' @ CRLF]"
  by code_simp


section \<open>Events posted to the parent window\<close>

text \<open>
  \<open>wx.PostEvent(self.parent, ...)\<close> appends to the events the parent window receives.
  \<open>UpdateGaugeEvent\<close> carries a float: the event keeps the two integers it is computed
  from, the bytes read so far and the reported size (the value is their quotient times
  100). \<open>MessageEvent\<close> has a title, a text and a style.
\<close>

datatype event =
    ResetGaugeEvent
  | UpdateGaugeEvent nat int
  | MessageEvent string string string

section \<open>Library.search (library.py)\<close>

type_synonym row = "string list"

record library =
  order_by :: string
  order_dir :: string

definition new_library :: library where
  "new_library = \<lparr>order_by = ''LCSC Part'', order_dir = ''ASC''\<rparr>"

record search_parameters =
  keyword :: string
  manufacturer :: string
  package :: string
  category :: string
  part_no :: string
  solder_joints :: string
  basic :: bool
  extended :: bool
  stock :: bool

text \<open>\<open>sep.join(xs)\<close>, and a text between double quotes as the f-strings write it.\<close>

fun join :: "string \<Rightarrow> string list \<Rightarrow> string" where
  "join sep [] = []"
| "join sep [x] = x"
| "join sep (x # y # ys) = x @ sep @ join sep (y # ys)"

definition dq :: string where
  "dq = [CHR 0x22]"

definition quoted :: "string \<Rightarrow> string" where
  "quoted s = dq @ s @ dq"

definition columns :: "string list" where
  "columns = [''LCSC Part'', ''MFR.Part'', ''Package'', ''Solder Joint'', ''Library Type'',
              ''Manufacturer'', ''Description'', ''Price'', ''Stock'']"

definition keyword_columns :: "string list" where
  "keyword_columns = [''LCSC Part'', ''Description'', ''MFR.Part'', ''Package'', ''Manufacturer'']"

text \<open>The list \<open>query_chunks\<close> as \<open>search\<close> builds it, clause by clause.\<close>

definition keyword_chunk :: "string \<Rightarrow> string" where
  "keyword_chunk kw =
     ''('' @ join '' OR '' (map (\<lambda>c. quoted c @ '' LIKE '' @ quoted (''%'' @ kw @ ''%'')) keyword_columns)
         @ '')''"

definition query_chunks :: "string list \<Rightarrow> search_parameters \<Rightarrow> string list" where
  "query_chunks keywords p =
     map keyword_chunk keywords
     @ (if manufacturer p \<noteq> [] then [quoted ''Manufacturer'' @ '' LIKE '' @ quoted (manufacturer p)] else [])
     @ (if package p \<noteq> [] then [quoted ''Package'' @ '' LIKE '' @ quoted (package p)] else [])
     @ (if category p \<noteq> [] then
          [''('' @ quoted ''First Category'' @ '' LIKE '' @ quoted (category p)
             @ '' OR '' @ quoted ''Second Category'' @ '' LIKE '' @ quoted (category p) @ '')'']
        else [])
     @ (if part_no p \<noteq> [] then [quoted ''MFR.Part'' @ '' LIKE '' @ quoted (part_no p)] else [])
     @ (if solder_joints p \<noteq> [] then [quoted ''Solder Joint'' @ '' LIKE '' @ quoted (solder_joints p)] else [])
     @ (let library_types = (if basic p then [quoted ''Basic''] else [])
                            @ (if extended p then [quoted ''Extended''] else [])
        in if library_types \<noteq> [] then
             [quoted ''Library Type'' @ '' IN ('' @ join '','' library_types @ '')'']
           else [])
     @ (if stock p then [quoted ''Stock'' @ '' > '' @ quoted ''0''] else [])"

text \<open>
  What a call of \<open>search\<close> leaves behind: the events posted, the SQL texts executed, and
  the value returned (\<open>None\<close>, a list of rows, or an exception of sqlite3).
  The calls of the logger change none of these and are left out.
  \<open>shlex.split\<close> and the database engine are not code of this repository: \<open>split\<close>
  gives the tokens of a keyword string or the message of the \<open>ValueError\<close> it raises,
  \<open>fetchall\<close> gives the rows of a query or \<open>None\<close> when sqlite3 raises.
\<close>

datatype returned = None_returned | Rows "row list" | Sql_raised

record search_outcome =
  posted :: "event list"
  executed :: "string list"
  returned :: returned

definition search ::
  "(string \<Rightarrow> string + string list) \<Rightarrow> (string \<Rightarrow> row list option) \<Rightarrow> library
     \<Rightarrow> search_parameters \<Rightarrow> search_outcome" where
  "search split fetchall lib p =
     (let s = join '','' (map quoted columns);
          query = ''SELECT '' @ s @ '' FROM parts WHERE ''
      in case split (keyword p) of
           Inl e \<Rightarrow>
             \<lparr>posted = [MessageEvent ''Query error'' (''Unable to split keywords: '' @ e) ''error''],
              executed = [], returned = None_returned\<rparr>
         | Inr keywords \<Rightarrow>
             (let chunks = query_chunks keywords p in
              if chunks = [] then \<lparr>posted = [], executed = [], returned = Rows []\<rparr>
              else
                (let query = query @ join '' AND '' chunks
                       @ '' ORDER BY '' @ quoted (order_by lib) @ '' COLLATE naturalsort '' @ order_dir lib
                       @ '' LIMIT 1000''
                 in \<lparr>posted = [], executed = [query],
                     returned = (case fetchall query of None \<Rightarrow> Sql_raised | Some rows \<Rightarrow> Rows rows)\<rparr>)))"

text \<open>
  \<open>shlex.split\<close> in its default POSIX mode, for running \<open>search\<close> on concrete keyword
  strings: the library's character loop with its four states (between tokens, in a word,
  inside quotes, after a backslash).
\<close>

datatype lex_state = Between | Word | Quoted char | Escaped lex_state

definition whitespace :: "char set" where
  "whitespace = {CHR '' '', CHR 0x09, CHR 0x0D, CHR 0x0A}"

definition quotes :: "char set" where
  "quotes = {CHR 0x27, CHR 0x22}"

definition escape :: char where
  "escape = CHR 0x5C"

definition emit :: "string \<Rightarrow> string + string list \<Rightarrow> string + string list" where
  "emit tok rest = (case rest of Inl e \<Rightarrow> Inl e | Inr ts \<Rightarrow> Inr (tok # ts))"

fun lex :: "lex_state \<Rightarrow> bool \<Rightarrow> string \<Rightarrow> string \<Rightarrow> string + string list" where
  "lex Between q tok [] = Inr []"
| "lex Word q tok [] = Inr (if tok = [] \<and> \<not> q then [] else [tok])"
| "lex (Quoted c) q tok [] = Inl ''No closing quotation''"
| "lex (Escaped st) q tok [] = Inl ''No escaped character''"
| "lex Between q tok (c # cs) =
     (if c \<in> whitespace then lex Between q tok cs
      else if c = escape then lex (Escaped Word) q tok cs
      else if c \<in> quotes then lex (Quoted c) True tok cs
      else lex Word q [c] cs)"
| "lex Word q tok (c # cs) =
     (if c \<in> whitespace then
        (if tok \<noteq> [] \<or> q then emit tok (lex Between False [] cs) else lex Between q tok cs)
      else if c \<in> quotes then lex (Quoted c) True tok cs
      else if c = escape then lex (Escaped Word) q tok cs
      else lex Word q (tok @ [c]) cs)"
| "lex (Quoted qc) q tok (c # cs) =
     (if c = qc then lex Word q tok cs
      else if c = escape \<and> qc = CHR 0x22 then lex (Escaped (Quoted qc)) q tok cs
      else lex (Quoted qc) q (tok @ [c]) cs)"
| "lex (Escaped st) q tok (c # cs) =
     (case st of
        Quoted qc \<Rightarrow>
          (if c \<noteq> escape \<and> c \<noteq> qc then lex st q (tok @ [escape, c]) cs
           else lex st q (tok @ [c]) cs)
      | _ \<Rightarrow> lex st q (tok @ [c]) cs)"

definition shlex_split :: "string \<Rightarrow> string + string list" where
  "shlex_split s = lex Between False [] s"

text \<open>
  A database engine that finds no rows, the library object as \<open>__init__\<close> leaves it,
  and search parameters with nothing filled in.
\<close>

definition fetch_nothing :: "string \<Rightarrow> row list option" where
  "fetch_nothing query = Some []"

definition no_filters :: search_parameters where
  "no_filters = \<lparr>keyword = [], manufacturer = [], package = [], category = [], part_no = [],
                  solder_joints = [], basic = False, extended = False, stock = False\<rparr>"


subsection \<open>Properties of search\<close>

text \<open>
  C5 (amended). For every keyword string that \<open>shlex.split\<close> rejects (an unbalanced
  quote), \<open>search\<close> posts one error message titled "Query error" that carries the
  message of the exception, executes no query and returns \<open>None\<close>; no exception
  leaves \<open>search\<close>.
\<close>

theorem search_split_error_returns_None:
  "split (keyword p) = Inl e \<Longrightarrow>
     search split fetchall lib p =
       \<lparr>posted = [MessageEvent ''Query error'' (''Unable to split keywords: '' @ e) ''error''],
        executed = [], returned = None_returned\<rparr>"
  by (simp add: search_def)

theorem search_split_error_returns_None_witness:
  "shlex_split (keyword (no_filters\<lparr>keyword := dq @ ''10k''\<rparr>)) = Inl ''No closing quotation'' \<and>
   search shlex_split fetch_nothing new_library (no_filters\<lparr>keyword := dq @ ''10k''\<rparr>) =
     \<lparr>posted = [MessageEvent ''Query error'' ''Unable to split keywords: No closing quotation'' ''error''],
      executed = [], returned = None_returned\<rparr>"
proof -
  have h: "shlex_split (keyword (no_filters\<lparr>keyword := dq @ ''10k''\<rparr>)) = Inl ''No closing quotation''"
    by code_simp
  from search_split_error_returns_None[where split = shlex_split
         and p = "no_filters\<lparr>keyword := dq @ ''10k''\<rparr>" and fetchall = fetch_nothing
         and lib = new_library, OF h] h
  show ?thesis by simp
qed

text \<open>
  C5 as stated asks for an empty result set: for the keyword \<open>"10k\<close> the value returned
  is \<open>None\<close>, not the empty list that \<open>search\<close> returns when there is no clause.
\<close>

theorem unbalanced_quote_result_not_empty_list:
  "returned (search shlex_split fetch_nothing new_library (no_filters\<lparr>keyword := dq @ ''10k''\<rparr>))
     \<noteq> Rows []"
  by code_simp

text \<open>
  C7. When the keyword string yields no token and no filter, library-type flag or
  stock flag contributes a clause, \<open>search\<close> returns the empty list at once: no
  query is executed and no event is posted.
\<close>

theorem search_without_clause_runs_no_query:
  assumes "split (keyword p) = Inr []"
    and "manufacturer p = []" and "package p = []" and "category p = []"
    and "part_no p = []" and "solder_joints p = []"
    and "\<not> basic p" and "\<not> extended p" and "\<not> stock p"
  shows "search split fetchall lib p = \<lparr>posted = [], executed = [], returned = Rows []\<rparr>"
  using assms by (simp add: search_def query_chunks_def)

theorem search_without_clause_runs_no_query_witness:
  "shlex_split (keyword (no_filters\<lparr>keyword := ''  ''\<rparr>)) = Inr [] \<and>
   search shlex_split fetch_nothing new_library (no_filters\<lparr>keyword := ''  ''\<rparr>)
     = \<lparr>posted = [], executed = [], returned = Rows []\<rparr>"
proof -
  have h: "shlex_split (keyword (no_filters\<lparr>keyword := ''  ''\<rparr>)) = Inr []"
    by code_simp
  from search_without_clause_runs_no_query[where split = shlex_split
         and p = "no_filters\<lparr>keyword := ''  ''\<rparr>" and fetchall = fetch_nothing
         and lib = new_library, OF h] h
  show ?thesis by (simp add: no_filters_def)
qed

text \<open>
  C3. The SQL text is built from the filter values themselves. Two searches that differ
  only in the manufacturer execute different texts; and a manufacturer value holding a
  double quote ends the SQL string it was put in, so that the rest of the value (here an
  \<open>OR\<close> with a comparison that is always true) becomes part of the WHERE clause.
\<close>

theorem search_interpolates_filter_values:
  "executed (search shlex_split fetch_nothing new_library (no_filters\<lparr>manufacturer := ''Yageo''\<rparr>))
     \<noteq> executed (search shlex_split fetch_nothing new_library (no_filters\<lparr>manufacturer := ''Murata''\<rparr>)) \<and>
   executed (search shlex_split fetch_nothing new_library
       (no_filters\<lparr>manufacturer := ''x'' @ dq @ '' OR '' @ dq @ ''1'' @ dq @ ''='' @ dq @ ''1''\<rparr>))
     = [''SELECT '' @ join '','' (map quoted columns) @ '' FROM parts WHERE ''
          @ quoted ''Manufacturer'' @ '' LIKE '' @ quoted ''x'' @ '' OR '' @ quoted ''1'' @ ''='' @ quoted ''1''
          @ '' ORDER BY '' @ quoted ''LCSC Part'' @ '' COLLATE naturalsort ASC LIMIT 1000'']"
  by code_simp

section \<open>The database\<close>

text \<open>
  The file \<open>parts.db\<close>: the table \<open>parts\<close> with its columns and rows, and the table
  \<open>rotation\<close> with its rows (regex, correction); \<open>None\<close> when the table does not
  exist. \<open>CREATE TABLE rotation ('regex', 'correction')\<close> declares no key and no
  constraint.
\<close>

record database =
  parts :: "(string list \<times> row list) option"
  rotation :: "(string \<times> string) list option"

text \<open>
  SQLite is not code of this repository. \<open>get_correction_data\<close>,
  \<open>delete_correction_data\<close> and \<open>update_correction_data\<close> write their arguments
  between single quotes into the SQL text and hand the text to the engine: \<open>execute\<close>
  gives the database after a statement, \<open>fetchone\<close> the first row of a query, and either
  gives an error when sqlite3 raises (the database is then as it was).
  \<open>insert_correction_data\<close> binds its arguments to the placeholders of a constant
  statement, so the engine gets the values as they are and appends the row.
\<close>

datatype sql_error = No_such_table | Rejected

record sqlite =
  execute :: "string \<Rightarrow> database \<Rightarrow> sql_error + database"
  fetchone :: "string \<Rightarrow> database \<Rightarrow> sql_error + (string \<times> string) option"

definition sq :: char where
  "sq = CHR 0x27"

definition create_rotation_table :: "database \<Rightarrow> database" where
  "create_rotation_table db =
     (case rotation db of None \<Rightarrow> db\<lparr>rotation := Some []\<rparr> | Some rs \<Rightarrow> db)"

definition select_statement :: "string \<Rightarrow> string" where
  "select_statement regex = ''SELECT * FROM rotation WHERE regex = '' @ [sq] @ regex @ [sq]"

definition delete_statement :: "string \<Rightarrow> string" where
  "delete_statement regex = ''DELETE FROM rotation WHERE regex = '' @ [sq] @ regex @ [sq]"

definition update_statement :: "string \<Rightarrow> string \<Rightarrow> string" where
  "update_statement regex correction =
     ''UPDATE rotation SET correction = '' @ [sq] @ correction @ [sq]
       @ '' WHERE regex = '' @ [sq] @ regex @ [sq]"

definition get_correction_data ::
  "sqlite \<Rightarrow> string \<Rightarrow> database \<Rightarrow> sql_error + (string \<times> string) option" where
  "get_correction_data engine regex db = fetchone engine (select_statement regex) db"

definition delete_correction_data :: "sqlite \<Rightarrow> string \<Rightarrow> database \<Rightarrow> sql_error + database" where
  "delete_correction_data engine regex db = execute engine (delete_statement regex) db"

definition update_correction_data ::
  "sqlite \<Rightarrow> string \<Rightarrow> string \<Rightarrow> database \<Rightarrow> sql_error + database" where
  "update_correction_data engine regex correction db =
     execute engine (update_statement regex correction) db"

definition insert_correction_data :: "string \<Rightarrow> string \<Rightarrow> database \<Rightarrow> sql_error + database" where
  "insert_correction_data regex correction db =
     (case rotation db of
        None \<Rightarrow> Inl No_such_table
      | Some rs \<Rightarrow> Inr (db\<lparr>rotation := Some (rs @ [(regex, correction)])\<rparr>))"

text \<open>
  Sequences of operations on the rotation table: a sequence runs until an operation
  raises, and leaves the database reached with the error, if any. Then the uniqueness of
  the regex column; the sequences none of whose interpolated arguments holds a single
  quote; and the sequences in which the caller has looked the regex up, and found
  nothing, before each insert.
\<close>

datatype rotation_op = Insert string string | Update string string | Delete string

fun apply_op :: "sqlite \<Rightarrow> rotation_op \<Rightarrow> database \<Rightarrow> sql_error + database" where
  "apply_op engine (Insert regex correction) db = insert_correction_data regex correction db"
| "apply_op engine (Update regex correction) db = update_correction_data engine regex correction db"
| "apply_op engine (Delete regex) db = delete_correction_data engine regex db"

fun run_ops :: "sqlite \<Rightarrow> rotation_op list \<Rightarrow> database \<Rightarrow> database \<times> sql_error option" where
  "run_ops engine [] db = (db, None)"
| "run_ops engine (op # ops) db =
     (case apply_op engine op db of
        Inl e \<Rightarrow> (db, Some e)
      | Inr db' \<Rightarrow> run_ops engine ops db')"

definition unique_regex :: "database \<Rightarrow> bool" where
  "unique_regex db = (case rotation db of None \<Rightarrow> True | Some rs \<Rightarrow> distinct (map fst rs))"

fun quote_free :: "rotation_op \<Rightarrow> bool" where
  "quote_free (Insert regex correction) = (sq \<notin> set regex)"
| "quote_free (Update regex correction) = (sq \<notin> set regex \<and> sq \<notin> set correction)"
| "quote_free (Delete regex) = (sq \<notin> set regex)"

fun inserts_checked :: "sqlite \<Rightarrow> rotation_op list \<Rightarrow> database \<Rightarrow> bool" where
  "inserts_checked engine [] db = True"
| "inserts_checked engine (op # ops) db =
     ((case op of
         Insert regex correction \<Rightarrow> get_correction_data engine regex db = Inr None
       | _ \<Rightarrow> True)
      \<and> (case apply_op engine op db of
           Inl e \<Rightarrow> True
         | Inr db' \<Rightarrow> inserts_checked engine ops db'))"

definition fresh_database :: database where
  "fresh_database = create_rotation_table \<lparr>parts = None, rotation = None\<rparr>"

text \<open>
  An engine to run the operations on concrete arguments. It knows the three statements
  with a value between the quotes that holds no single quote, and runs them as SQL
  defines them (the rows whose regex equals the value are selected, deleted or given the
  new correction). It stands in for SQLite on these statements only: \<open>Rejected\<close> on
  any other text says nothing of what SQLite does with it.
\<close>

definition strip_prefix :: "string \<Rightarrow> string \<Rightarrow> string option" where
  "strip_prefix p xs = (if prefix p xs then Some (drop (length p) xs) else None)"

definition closing_literal :: "string \<Rightarrow> string option" where
  "closing_literal xs =
     (if xs \<noteq> [] \<and> last xs = sq \<and> sq \<notin> set (butlast xs) then Some (butlast xs) else None)"

definition literal_execute :: "string \<Rightarrow> database \<Rightarrow> sql_error + database" where
  "literal_execute statement db =
     (case rotation db of
        None \<Rightarrow> Inl No_such_table
      | Some rs \<Rightarrow>
          (case strip_prefix (''DELETE FROM rotation WHERE regex = '' @ [sq]) statement of
             Some rest \<Rightarrow>
               (case closing_literal rest of
                  None \<Rightarrow> Inl Rejected
                | Some regex \<Rightarrow> Inr (db\<lparr>rotation := Some (filter (\<lambda>(r, c). r \<noteq> regex) rs)\<rparr>))
           | None \<Rightarrow>
               (case strip_prefix (''UPDATE rotation SET correction = '' @ [sq]) statement of
                  None \<Rightarrow> Inl Rejected
                | Some rest \<Rightarrow>
                    (case strip_prefix ([sq] @ '' WHERE regex = '' @ [sq])
                            (dropWhile (\<lambda>c. c \<noteq> sq) rest) of
                       None \<Rightarrow> Inl Rejected
                     | Some rest' \<Rightarrow>
                         (case closing_literal rest' of
                            None \<Rightarrow> Inl Rejected
                          | Some regex \<Rightarrow>
                              Inr (db\<lparr>rotation := Some
                                     (map (\<lambda>(r, c). if r = regex
                                             then (r, takeWhile (\<lambda>c. c \<noteq> sq) rest) else (r, c))
                                        rs)\<rparr>))))))"

definition literal_fetchone :: "string \<Rightarrow> database \<Rightarrow> sql_error + (string \<times> string) option" where
  "literal_fetchone statement db =
     (case rotation db of
        None \<Rightarrow> Inl No_such_table
      | Some rs \<Rightarrow>
          (case strip_prefix (''SELECT * FROM rotation WHERE regex = '' @ [sq]) statement of
             None \<Rightarrow> Inl Rejected
           | Some rest \<Rightarrow>
               (case closing_literal rest of
                  None \<Rightarrow> Inl Rejected
                | Some regex \<Rightarrow> Inr (List.find (\<lambda>(r, c). r = regex) rs))))"

definition literal_engine :: sqlite where
  "literal_engine = \<lparr>execute = literal_execute, fetchone = literal_fetchone\<rparr>"

subsection \<open>Properties of the rotation table\<close>

lemma find_None_notin: "List.find (\<lambda>(r, c). r = regex) rs = None \<Longrightarrow> regex \<notin> fst ` set rs"
  by (auto simp: find_None_iff)

lemma map_fst_update:
  "fst \<circ> (\<lambda>(r, c). if r = regex then (r, correction) else (r, c)) = fst"
  by (auto simp: fun_eq_iff)

lemma strip_prefix_append: "strip_prefix p (p @ xs) = Some xs"
  by (simp add: strip_prefix_def)

lemma closing_literal_snoc: "sq \<notin> set v \<Longrightarrow> closing_literal (v @ [sq]) = Some v"
  by (simp add: closing_literal_def)

lemma literal_execute_delete:
  "sq \<notin> set regex \<Longrightarrow> rotation db = Some rs \<Longrightarrow>
     literal_execute (delete_statement regex) db
       = Inr (db\<lparr>rotation := Some (filter (\<lambda>(r, c). r \<noteq> regex) rs)\<rparr>)"
proof -
  assume q: "sq \<notin> set regex" and r: "rotation db = Some rs"
  have "delete_statement regex = (''DELETE FROM rotation WHERE regex = '' @ [sq]) @ (regex @ [sq])"
    by (simp add: delete_statement_def)
  then show ?thesis
    unfolding literal_execute_def
    by (simp only: strip_prefix_append closing_literal_snoc[OF q] r option.case)
qed

lemma literal_execute_update:
  assumes q: "sq \<notin> set regex" and qc: "sq \<notin> set correction" and r: "rotation db = Some rs"
  shows "literal_execute (update_statement regex correction) db
       = Inr (db\<lparr>rotation := Some (map (\<lambda>(r, c). if r = regex then (r, correction) else (r, c)) rs)\<rparr>)"
proof -
  let ?rest = "correction @ ([sq] @ '' WHERE regex = '' @ [sq]) @ (regex @ [sq])"
  have u: "update_statement regex correction = (''UPDATE rotation SET correction = '' @ [sq]) @ ?rest"
    by (simp add: update_statement_def)
  have nd: "strip_prefix (''DELETE FROM rotation WHERE regex = '' @ [sq])
              (update_statement regex correction) = None"
    by (simp add: update_statement_def strip_prefix_def)
  have all: "\<And>x. x \<in> set correction \<Longrightarrow> x \<noteq> sq" using qc by auto
  have tw: "takeWhile (\<lambda>c. c \<noteq> sq) ?rest = correction"
    by (subst takeWhile_append2) (simp_all add: all)
  have dw: "dropWhile (\<lambda>c. c \<noteq> sq) ?rest = ([sq] @ '' WHERE regex = '' @ [sq]) @ (regex @ [sq])"
    by (subst dropWhile_append2) (simp_all add: all)
  show ?thesis
    unfolding literal_execute_def nd
    by (simp only: u strip_prefix_append tw dw closing_literal_snoc[OF q] r option.case)
qed

lemma literal_fetchone_select:
  "sq \<notin> set regex \<Longrightarrow> rotation db = Some rs \<Longrightarrow>
     literal_fetchone (select_statement regex) db = Inr (List.find (\<lambda>(r, c). r = regex) rs)"
proof -
  assume q: "sq \<notin> set regex" and r: "rotation db = Some rs"
  have "select_statement regex = (''SELECT * FROM rotation WHERE regex = '' @ [sq]) @ (regex @ [sq])"
    by (simp add: select_statement_def)
  then show ?thesis
    unfolding literal_fetchone_def
    by (simp only: strip_prefix_append closing_literal_snoc[OF q] r option.case)
qed

lemma apply_op_keeps_unique:
  assumes del: "\<And>regex db rs db'. sq \<notin> set regex \<Longrightarrow> rotation db = Some rs \<Longrightarrow>
            execute engine (delete_statement regex) db = Inr db' \<Longrightarrow>
            db' = db\<lparr>rotation := Some (filter (\<lambda>(r, c). r \<noteq> regex) rs)\<rparr>"
    and upd: "\<And>regex correction db rs db'. sq \<notin> set regex \<Longrightarrow> sq \<notin> set correction \<Longrightarrow>
            rotation db = Some rs \<Longrightarrow>
            execute engine (update_statement regex correction) db = Inr db' \<Longrightarrow>
            db' = db\<lparr>rotation := Some (map (\<lambda>(r, c). if r = regex then (r, correction) else (r, c)) rs)\<rparr>"
    and sel: "\<And>regex db rs found. sq \<notin> set regex \<Longrightarrow> rotation db = Some rs \<Longrightarrow>
            fetchone engine (select_statement regex) db = Inr found \<Longrightarrow>
            found = List.find (\<lambda>(r, c). r = regex) rs"
    and rs: "rotation db = Some rs" and d: "distinct (map fst rs)"
    and q: "quote_free op"
    and c: "case op of Insert regex correction \<Rightarrow> get_correction_data engine regex db = Inr None
            | _ \<Rightarrow> True"
    and a: "apply_op engine op db = Inr db'"
  shows "\<exists>rs'. rotation db' = Some rs' \<and> distinct (map fst rs')"
proof (cases op)
  case (Insert regex correction)
  with q c have "fetchone engine (select_statement regex) db = Inr None" and "sq \<notin> set regex"
    by (simp_all add: get_correction_data_def)
  from sel[OF this(2) rs this(1)] have "regex \<notin> fst ` set rs"
    by (simp add: find_None_notin)
  with Insert a rs d show ?thesis
    by (auto simp: insert_correction_data_def)
next
  case (Update regex correction)
  with q a have "sq \<notin> set regex" "sq \<notin> set correction"
    and "execute engine (update_statement regex correction) db = Inr db'"
    by (simp_all add: update_correction_data_def)
  from upd[OF this(1,2) rs this(3)] d show ?thesis
    by (simp add: map_fst_update)
next
  case (Delete regex)
  with q a have "sq \<notin> set regex" and "execute engine (delete_statement regex) db = Inr db'"
    by (simp_all add: delete_correction_data_def)
  from del[OF this(1) rs this(2)] d show ?thesis
    by (simp add: distinct_map_filter)
qed

lemma run_ops_keeps_unique:
  assumes del: "\<And>regex db rs db'. sq \<notin> set regex \<Longrightarrow> rotation db = Some rs \<Longrightarrow>
            execute engine (delete_statement regex) db = Inr db' \<Longrightarrow>
            db' = db\<lparr>rotation := Some (filter (\<lambda>(r, c). r \<noteq> regex) rs)\<rparr>"
    and upd: "\<And>regex correction db rs db'. sq \<notin> set regex \<Longrightarrow> sq \<notin> set correction \<Longrightarrow>
            rotation db = Some rs \<Longrightarrow>
            execute engine (update_statement regex correction) db = Inr db' \<Longrightarrow>
            db' = db\<lparr>rotation := Some (map (\<lambda>(r, c). if r = regex then (r, correction) else (r, c)) rs)\<rparr>"
    and sel: "\<And>regex db rs found. sq \<notin> set regex \<Longrightarrow> rotation db = Some rs \<Longrightarrow>
            fetchone engine (select_statement regex) db = Inr found \<Longrightarrow>
            found = List.find (\<lambda>(r, c). r = regex) rs"
  shows "rotation db = Some rs \<Longrightarrow> distinct (map fst rs) \<Longrightarrow> list_all quote_free ops \<Longrightarrow>
         inserts_checked engine ops db \<Longrightarrow> unique_regex (fst (run_ops engine ops db))"
proof (induction ops arbitrary: db rs)
  case Nil
  then show ?case by (simp add: unique_regex_def)
next
  case (Cons op ops)
  show ?case
  proof (cases "apply_op engine op db")
    case (Inl e)
    with Cons.prems(1,2) show ?thesis by (simp add: unique_regex_def)
  next
    case (Inr db1)
    from Cons.prems(3) have q: "quote_free op" and qs: "list_all quote_free ops" by simp_all
    from Cons.prems(4) Inr
    have c: "case op of Insert regex correction \<Rightarrow> get_correction_data engine regex db = Inr None
             | _ \<Rightarrow> True"
      and i: "inserts_checked engine ops db1" by simp_all
    have "\<exists>rs'. rotation db1 = Some rs' \<and> distinct (map fst rs')"
    proof (rule apply_op_keeps_unique[where engine = engine and op = op and db = db and rs = rs])
      show "\<And>regex db rs db'. sq \<notin> set regex \<Longrightarrow> rotation db = Some rs \<Longrightarrow>
            execute engine (delete_statement regex) db = Inr db' \<Longrightarrow>
            db' = db\<lparr>rotation := Some (filter (\<lambda>(r, c). r \<noteq> regex) rs)\<rparr>"
        by (fact del)
      show "\<And>regex correction db rs db'. sq \<notin> set regex \<Longrightarrow> sq \<notin> set correction \<Longrightarrow>
            rotation db = Some rs \<Longrightarrow>
            execute engine (update_statement regex correction) db = Inr db' \<Longrightarrow>
            db' = db\<lparr>rotation := Some (map (\<lambda>(r, c). if r = regex then (r, correction) else (r, c)) rs)\<rparr>"
        by (fact upd)
      show "\<And>regex db rs found. sq \<notin> set regex \<Longrightarrow> rotation db = Some rs \<Longrightarrow>
            fetchone engine (select_statement regex) db = Inr found \<Longrightarrow>
            found = List.find (\<lambda>(r, c). r = regex) rs"
        by (fact sel)
    qed (fact Cons.prems(1) Cons.prems(2) q c Inr)+
    then obtain rs1 where r1: "rotation db1 = Some rs1" and d1: "distinct (map fst rs1)" by blast
    from Cons.IH[OF r1 d1 qs i] Inr show ?thesis by simp
  qed
qed

text \<open>
  C4 (amended). The engine runs the three statements as SQL defines them whenever the
  value between the quotes holds no single quote (when it does not raise). Then, starting
  from the freshly created rotation table, every sequence of inserts, updates and deletes
  whose interpolated arguments hold no single quote, and in which each insert is made
  for a regex that \<open>get_correction_data\<close> has just looked up and not found, leaves a
  table in which no two rows share a regex, also when one of the operations raises and
  ends the sequence.
\<close>

theorem rotation_regex_unique_when_inserts_checked:
  assumes "\<And>regex db rs db'. sq \<notin> set regex \<Longrightarrow> rotation db = Some rs \<Longrightarrow>
            execute engine (delete_statement regex) db = Inr db' \<Longrightarrow>
            db' = db\<lparr>rotation := Some (filter (\<lambda>(r, c). r \<noteq> regex) rs)\<rparr>"
    and "\<And>regex correction db rs db'. sq \<notin> set regex \<Longrightarrow> sq \<notin> set correction \<Longrightarrow>
            rotation db = Some rs \<Longrightarrow>
            execute engine (update_statement regex correction) db = Inr db' \<Longrightarrow>
            db' = db\<lparr>rotation := Some (map (\<lambda>(r, c). if r = regex then (r, correction) else (r, c)) rs)\<rparr>"
    and "\<And>regex db rs found. sq \<notin> set regex \<Longrightarrow> rotation db = Some rs \<Longrightarrow>
            fetchone engine (select_statement regex) db = Inr found \<Longrightarrow>
            found = List.find (\<lambda>(r, c). r = regex) rs"
    and "list_all quote_free ops"
    and "inserts_checked engine ops fresh_database"
  shows "unique_regex (fst (run_ops engine ops fresh_database))"
proof -
  have r: "rotation fresh_database = Some []"
    by (simp add: fresh_database_def create_rotation_table_def)
  have d: "distinct (map fst ([] :: (string \<times> string) list))" by simp
  show ?thesis
  proof (rule run_ops_keeps_unique[where engine = engine and rs = "[]"])
    show "\<And>regex db rs db'. sq \<notin> set regex \<Longrightarrow> rotation db = Some rs \<Longrightarrow>
          execute engine (delete_statement regex) db = Inr db' \<Longrightarrow>
          db' = db\<lparr>rotation := Some (filter (\<lambda>(r, c). r \<noteq> regex) rs)\<rparr>"
      by (fact assms(1))
    show "\<And>regex correction db rs db'. sq \<notin> set regex \<Longrightarrow> sq \<notin> set correction \<Longrightarrow>
          rotation db = Some rs \<Longrightarrow>
          execute engine (update_statement regex correction) db = Inr db' \<Longrightarrow>
          db' = db\<lparr>rotation := Some (map (\<lambda>(r, c). if r = regex then (r, correction) else (r, c)) rs)\<rparr>"
      by (fact assms(2))
    show "\<And>regex db rs found. sq \<notin> set regex \<Longrightarrow> rotation db = Some rs \<Longrightarrow>
          fetchone engine (select_statement regex) db = Inr found \<Longrightarrow>
          found = List.find (\<lambda>(r, c). r = regex) rs"
      by (fact assms(3))
  qed (simp_all add: r assms(4) assms(5))
qed

text \<open>
  C4 as stated fails: the table has no unique key, and \<open>insert_correction_data\<close>
  applied twice with the same regex stores two rows with that regex.
\<close>

theorem insert_twice_stores_regex_twice:
  "run_ops literal_engine [Insert ''^R.*'' ''90'', Insert ''^R.*'' ''180''] fresh_database
     = (\<lparr>parts = None, rotation = Some [(''^R.*'', ''90''), (''^R.*'', ''180'')]\<rparr>, None) \<and>
   \<not> unique_regex \<lparr>parts = None, rotation = Some [(''^R.*'', ''90''), (''^R.*'', ''180'')]\<rparr>"
  by code_simp

theorem rotation_regex_unique_when_inserts_checked_witness:
  "list_all quote_free
     [Insert ''^R.*'' ''90'', Update ''^R.*'' ''180'', Insert ''^C.*'' ''0'', Delete ''^R.*'',
      Insert ''^R.*'' ''270''] \<and>
   inserts_checked literal_engine
     [Insert ''^R.*'' ''90'', Update ''^R.*'' ''180'', Insert ''^C.*'' ''0'', Delete ''^R.*'',
      Insert ''^R.*'' ''270''] fresh_database \<and>
   run_ops literal_engine
     [Insert ''^R.*'' ''90'', Update ''^R.*'' ''180'', Insert ''^C.*'' ''0'', Delete ''^R.*'',
      Insert ''^R.*'' ''270''] fresh_database
     = (\<lparr>parts = None, rotation = Some [(''^C.*'', ''0''), (''^R.*'', ''270'')]\<rparr>, None) \<and>
   unique_regex \<lparr>parts = None, rotation = Some [(''^C.*'', ''0''), (''^R.*'', ''270'')]\<rparr>"
proof -
  let ?ops = "[Insert ''^R.*'' ''90'', Update ''^R.*'' ''180'', Insert ''^C.*'' ''0'',
               Delete ''^R.*'', Insert ''^R.*'' ''270'']"
  have h0: "list_all quote_free ?ops" by code_simp
  have h1: "inserts_checked literal_engine ?ops fresh_database" by code_simp
  have h2: "run_ops literal_engine ?ops fresh_database
     = (\<lparr>parts = None, rotation = Some [(''^C.*'', ''0''), (''^R.*'', ''270'')]\<rparr>, None)"
    by code_simp
  have "unique_regex (fst (run_ops literal_engine ?ops fresh_database))"
    by (rule rotation_regex_unique_when_inserts_checked[OF _ _ _ h0 h1])
       (simp_all add: literal_engine_def literal_execute_delete literal_execute_update
          literal_fetchone_select)
  with h0 h1 h2 show ?thesis by simp
qed

section \<open>Library.download (library.py)\<close>

text \<open>\<open>str(n)\<close> for an integer, as the f-strings print it.\<close>

definition digit :: "nat \<Rightarrow> char" where
  "digit n = ''0123456789'' ! n"

fun str_nat :: "nat \<Rightarrow> string" where
  "str_nat n = (if n < 10 then [digit n] else str_nat (n div 10) @ [digit (n mod 10)])"

declare str_nat.simps [simp del]

definition str_int :: "int \<Rightarrow> string" where
  "str_int i = (if i < 0 then ''-'' @ str_nat (nat (- i)) else str_nat (nat i))"

text \<open>
  What \<open>download\<close> takes from outside this repository:
  \<^item> the LZMA decompressor and its initial state;
  \<^item> \<open>csv.reader\<close> over the decoded lines. Fed one more line (\<open>csv_feed\<close>, which
    stands for decoding the line as UTF-8 and parsing it), the reader completes a row,
    stays inside a record (a quoted field that runs over the line end), or raises;
    \<open>csv_flush\<close> is the row it yields for an unfinished record when the lines end;
  \<^item> SQLite: \<open>sqlite_columns\<close> gives the columns of the table that
    \<open>CREATE TABLE IF NOT EXISTS parts (...)\<close> creates from the quoted header fields, or
    \<open>None\<close> when the statement is rejected;
  \<^item> \<open>update_stock\<close>, which reads the footprints of the parent window, looks their
    stock up with \<open>SELECT\<close> statements and writes to the store of the parent window
    only: \<open>stock_refresh\<close> gives the events it posts, or \<open>None\<close> when it raises;
  \<^item> the elapsed time, as the success message prints it.
\<close>

datatype 'p fed = Row row | More 'p | Csv_raised

record ('d, 'p) runtime =
  lzma_decompress :: "'d decompressor"
  lzma_new :: 'd
  csv_feed :: "'p option \<Rightarrow> bytes \<Rightarrow> 'p fed"
  csv_flush :: "'p \<Rightarrow> row"
  sqlite_columns :: "string list \<Rightarrow> string list option"
  stock_refresh :: "database \<Rightarrow> event list option"
  elapsed :: string

text \<open>
  The iterator \<open>csv.reader(map(decode, LZMAIterReader(...)))\<close>, unfolded: the rows it
  yields, each with the reader as it stands when the row is yielded, and how the
  iteration ends (\<open>StopIteration\<close>, or an exception of the decompressor, the decoding or
  the parser). Every \<open>__next__\<close> of the csv reader starts a new record (\<open>None\<close>) and
  pulls lines until the record is complete; when the lines stop inside a record, the
  unfinished record is yielded.
\<close>

datatype stream_end = Ended | Aborted

lemma readline_Stop_order:
  "readline decompress s = StopIteration s' \<Longrightarrow> s' = s \<or> reader_size s' < reader_size s"
proof (induction decompress s rule: readline.induct)
  case (1 decompress s)
  show ?case
  proof (cases "find_bytes (linebuf s) CRLF = - 1")
    case True
    show ?thesis
    proof (cases "read decompress s")
      case (Data newdata s1)
      show ?thesis
      proof (cases "newdata = []")
        case e: True
        with Data True "1.prems" have "s' = s1"
          by (subst (asm) readline.simps) simp
        with read_Data_size[OF Data] show ?thesis by simp
      next
        case ne: False
        with Data True "1.prems"
        have rl: "readline decompress (s1\<lparr>linebuf := linebuf s1 @ newdata\<rparr>) = StopIteration s'"
          by (subst (asm) readline.simps) simp
        from "1.IH"[OF refl _ Data _ rl] True ne
        have "s' = s1\<lparr>linebuf := linebuf s1 @ newdata\<rparr>
                \<or> reader_size s' < reader_size (s1\<lparr>linebuf := linebuf s1 @ newdata\<rparr>)"
          by simp
        moreover have "reader_size (s1\<lparr>linebuf := linebuf s1 @ newdata\<rparr>) = reader_size s1"
          by (simp add: reader_size_def)
        ultimately show ?thesis using read_Data_size[OF Data] by auto
      qed
    next
      case Exhausted
      with True "1.prems" show ?thesis by (subst (asm) readline.simps) simp
    next
      case Decompress_failed
      with True "1.prems" show ?thesis by (subst (asm) readline.simps) simp
    qed
  next
    case False
    with "1.prems" show ?thesis by (subst (asm) readline.simps) (simp add: Let_def)
  qed
qed

definition yield :: "'a \<Rightarrow> 'a list \<times> stream_end \<Rightarrow> 'a list \<times> stream_end" where
  "yield x r = (x # fst r, snd r)"

function csv_reader ::
  "('d, 'p) runtime \<Rightarrow> 'p option \<Rightarrow> 'd LZMAIterReader
     \<Rightarrow> (row \<times> 'd LZMAIterReader) list \<times> stream_end" where
  "csv_reader rt p s =
     (case readline (lzma_decompress rt) s of
        Raised \<Rightarrow> ([], Aborted)
      | StopIteration s' \<Rightarrow>
          (case p of
             None \<Rightarrow> ([], Ended)
           | Some q \<Rightarrow> yield (csv_flush rt q, s') (csv_reader rt None s'))
      | Line l s' \<Rightarrow>
          (case csv_feed rt p l of
             Csv_raised \<Rightarrow> ([], Aborted)
           | Row r \<Rightarrow> yield (r, s') (csv_reader rt None s')
           | More q \<Rightarrow> csv_reader rt (Some q) s'))"
  by pat_completeness auto
termination
  by (relation "inv_image (reader_order <*lex*> less_than)
                  (\<lambda>(rt, p, s). (s, if p = None then 0 else (1::nat)))")
     (auto simp: reader_order_def dest!: readline_Line_order readline_Stop_order)

declare csv_reader.simps [simp del]

text \<open>
  The response of \<open>requests.get\<close>: the status code, the \<open>Content-Length\<close> header
  after \<open>int(...)\<close> (\<open>None\<close> when the header is missing) and the blocks that
  \<open>iter_content\<close> delivers. \<open>r.raw.tell()\<close> is the number of bytes delivered so far:
  the length of the body less the blocks still in the iterator.
  A header that is not the text of an integer makes \<open>int\<close> raise before the
  database is touched; such a response is outside the type. The calls of the logger
  are left out.
\<close>

record response =
  status_code :: int
  content_length :: "int option"
  body :: "bytes list"

datatype exn = Stop_iteration | Stream_error | ZeroDivisionError | Sqlite_error | Stock_error

text \<open>
  \<open>DROP TABLE IF EXISTS parts\<close> and \<open>CREATE TABLE IF NOT EXISTS parts (...)\<close>.
\<close>

definition delete_parts_table :: "database \<Rightarrow> database" where
  "delete_parts_table db = db\<lparr>parts := None\<rparr>"

definition create_parts_table ::
  "('d, 'p) runtime \<Rightarrow> string list \<Rightarrow> database \<Rightarrow> exn + database" where
  "create_parts_table rt cols db =
     (case sqlite_columns rt cols of
        None \<Rightarrow> Inl Sqlite_error
      | Some cs \<Rightarrow> Inr (case parts db of None \<Rightarrow> db\<lparr>parts := Some (cs, [])\<rparr> | Some t \<Rightarrow> db))"

text \<open>
  The loop over \<open>enumerate(csv_reader)\<close>. The connection holds the rows inserted and
  not yet committed; \<open>batches\<close> records the argument of every \<open>executemany\<close> that
  succeeded, \<open>gauge\<close> the progress events. \<open>INSERT INTO parts VALUES (?,...,?)\<close>
  has one placeholder per header field: \<open>executemany\<close> raises unless the table has as
  many columns and every row as many fields. The progress is
  \<open>r.raw.tell() / size * 100\<close>, which raises \<open>ZeroDivisionError\<close> for a size of 0.
\<close>

record load_state =
  inserted :: "row list"
  batches :: "row list list"
  gauge :: "event list"

definition executemany :: "nat \<Rightarrow> nat \<Rightarrow> row list \<Rightarrow> load_state \<Rightarrow> load_state option" where
  "executemany n m buffer st =
     (if 0 < n \<and> m = n \<and> (\<forall>r \<in> set buffer. length r = n) then
        Some (st\<lparr>inserted := inserted st @ buffer, batches := batches st @ [buffer]\<rparr>)
      else None)"

fun load_rows ::
  "nat \<Rightarrow> nat \<Rightarrow> int \<Rightarrow> nat \<Rightarrow> nat \<Rightarrow> (row \<times> 'd LZMAIterReader) list \<Rightarrow> row list
     \<Rightarrow> load_state \<Rightarrow> (exn \<times> load_state) + (row list \<times> load_state)" where
  "load_rows n m fsize nbytes count [] buffer st = Inr (buffer, st)"
| "load_rows n m fsize nbytes count ((r, s) # rest) buffer st =
     (let buffer = buffer @ [r] in
      if count mod 1000 = 0 then
        (if fsize = 0 then Inl (ZeroDivisionError, st)
         else
           (let st = st\<lparr>gauge := gauge st
                        @ [UpdateGaugeEvent (nbytes - length (concat (iter s))) fsize]\<rparr>
            in case executemany n m buffer st of
                 None \<Rightarrow> Inl (Sqlite_error, st)
               | Some st' \<Rightarrow> load_rows n m fsize nbytes (Suc count) rest [] st'))
      else load_rows n m fsize nbytes (Suc count) rest buffer st)"

text \<open>
  \<open>con.commit()\<close> makes the inserted rows part of the table; a connection closed
  without it loses them.
\<close>

definition commit :: "row list \<Rightarrow> database \<Rightarrow> database" where
  "commit rows db =
     (case parts db of None \<Rightarrow> db | Some (cs, rs) \<Rightarrow> db\<lparr>parts := Some (cs, rs @ rows)\<rparr>)"

text \<open>
  A run of \<open>download\<close> leaves the database, the events posted, the batches inserted,
  and the exception that ended the worker thread, if any.
\<close>

record download_outcome =
  store :: database
  events :: "event list"
  inserts :: "row list list"
  raised :: "exn option"

definition too_small :: "int \<Rightarrow> event" where
  "too_small fsize =
     MessageEvent ''Download Error''
       (''Failed to download the JLCPCB database CSV, file too small ('' @ str_int fsize @ '' bytes)'')
       ''error''"

text \<open>
  \<open>finish\<close> is the end of \<open>download\<close> from \<open>con.commit()\<close> on, \<open>import_csv\<close>
  the part from the creation of the reader (line 312) on, with the events posted there.
\<close>

definition finish :: "('d, 'p) runtime \<Rightarrow> database \<Rightarrow> load_state \<Rightarrow> download_outcome" where
  "finish rt db st =
     (let db = commit (inserted st) db;
          evs = gauge st @ [ResetGaugeEvent]
      in case stock_refresh rt db of
           None \<Rightarrow> \<lparr>store = db, events = evs, inserts = batches st, raised = Some Stock_error\<rparr>
         | Some stock_events \<Rightarrow>
             \<lparr>store = db,
              events = evs @ stock_events
                 @ [ResetGaugeEvent,
                    MessageEvent ''Success''
                      (''Sucessfully downloaded and imported the JLCPCB database in ''
                         @ elapsed rt @ '' seconds!'')
                      ''info''],
              inserts = batches st, raised = None\<rparr>)"

definition column_count :: "database \<Rightarrow> nat" where
  "column_count db = (case parts db of None \<Rightarrow> 0 | Some (cs, rs) \<Rightarrow> length cs)"

definition import_csv ::
  "('d, 'p) runtime \<Rightarrow> response \<Rightarrow> database \<Rightarrow> int \<Rightarrow> download_outcome" where
  "import_csv rt r db fsize =
     (let nbytes = length (concat (body r)) in
      case csv_reader rt None (new_reader (lzma_new rt) (body r)) of
        ([], e) \<Rightarrow>
          \<lparr>store = db, events = [], inserts = [],
           raised = Some (if e = Ended then Stop_iteration else Stream_error)\<rparr>
      | ((headers, s) # rest, e) \<Rightarrow>
          (let db = delete_parts_table db in
           case create_parts_table rt headers db of
             Inl x \<Rightarrow> \<lparr>store = db, events = [], inserts = [], raised = Some x\<rparr>
           | Inr db \<Rightarrow>
               (let db = create_rotation_table db;
                    n = length headers;
                    m = column_count db
                in case load_rows n m fsize nbytes 0 rest []
                          \<lparr>inserted = [], batches = [], gauge = []\<rparr> of
                     Inl (x, st) \<Rightarrow>
                       \<lparr>store = db, events = gauge st, inserts = batches st, raised = Some x\<rparr>
                   | Inr (buffer, st) \<Rightarrow>
                       if e = Aborted then
                         \<lparr>store = db, events = gauge st, inserts = batches st,
                          raised = Some Stream_error\<rparr>
                       else if buffer \<noteq> [] then
                         (case executemany n m buffer st of
                            None \<Rightarrow>
                              \<lparr>store = db, events = gauge st, inserts = batches st,
                               raised = Some Sqlite_error\<rparr>
                          | Some st' \<Rightarrow> finish rt db st')
                       else finish rt db st)))"

definition download :: "('d, 'p) runtime \<Rightarrow> response \<Rightarrow> database \<Rightarrow> download_outcome" where
  "download rt r db =
     (let evs = [ResetGaugeEvent] in
      if status_code r \<noteq> 200 then
        \<lparr>store = db,
         events = evs @ [MessageEvent ''Download Error''
                    (''Failed to download the JLCPCB database CSV, error code '' @ str_int (status_code r))
                    ''error''],
         inserts = [], raised = None\<rparr>
      else
        (case content_length r of
           None \<Rightarrow>
             \<lparr>store = db,
              events = evs @ [MessageEvent ''Download Error''
                    ''Failed to download the JLCPCB database CSV, unable to determine size''
                    ''error''],
              inserts = [], raised = None\<rparr>
         | Some fsize \<Rightarrow>
             (let evs = evs @ (if fsize < 1000 then [too_small fsize] else []);
                  out = import_csv rt r db fsize
              in out\<lparr>events := evs @ events out\<rparr>)))"

text \<open>
  A runtime to run \<open>download\<close> on concrete responses: the framed decompressor,
  \<open>csv.reader\<close> in its default dialect, an engine that accepts distinct column names
  without a single quote, and a parent window without footprints.

  The csv reader is the state machine of the standard library for the default dialect
  (delimiter comma, quote character \<open>"\<close>, doubled quotes, not strict): the characters
  of a line are processed one by one, then the end of the line (\<open>None\<close>); a record is
  complete when the machine is back in \<open>START_RECORD\<close>, and a line that ends inside a
  quoted field leaves it in \<open>IN_QUOTED_FIELD\<close>.
\<close>

datatype csv_state =
    START_RECORD | START_FIELD | IN_FIELD | IN_QUOTED_FIELD | QUOTE_IN_QUOTED_FIELD | EAT_CRNL

type_synonym csv_parser = "row \<times> string \<times> csv_state"

definition is_nl :: "char \<Rightarrow> bool" where
  "is_nl c \<longleftrightarrow> c = LF \<or> c = CR"

definition quotechar :: char where
  "quotechar = CHR 0x22"

definition delimiter :: char where
  "delimiter = CHR '',''"

fun process_char :: "csv_parser \<Rightarrow> char option \<Rightarrow> csv_parser option" where
  "process_char (fs, f, START_RECORD) None = Some (fs, f, START_RECORD)"
| "process_char (fs, f, START_RECORD) (Some c) =
     (if is_nl c then Some (fs, f, EAT_CRNL)
      else if c = quotechar then Some (fs, f, IN_QUOTED_FIELD)
      else if c = delimiter then Some (fs @ [f], [], START_FIELD)
      else Some (fs, f @ [c], IN_FIELD))"
| "process_char (fs, f, START_FIELD) None = Some (fs @ [f], [], START_RECORD)"
| "process_char (fs, f, START_FIELD) (Some c) =
     (if is_nl c then Some (fs @ [f], [], EAT_CRNL)
      else if c = quotechar then Some (fs, f, IN_QUOTED_FIELD)
      else if c = delimiter then Some (fs @ [f], [], START_FIELD)
      else Some (fs, f @ [c], IN_FIELD))"
| "process_char (fs, f, IN_FIELD) None = Some (fs @ [f], [], START_RECORD)"
| "process_char (fs, f, IN_FIELD) (Some c) =
     (if is_nl c then Some (fs @ [f], [], EAT_CRNL)
      else if c = delimiter then Some (fs @ [f], [], START_FIELD)
      else Some (fs, f @ [c], IN_FIELD))"
| "process_char (fs, f, IN_QUOTED_FIELD) None = Some (fs, f, IN_QUOTED_FIELD)"
| "process_char (fs, f, IN_QUOTED_FIELD) (Some c) =
     (if c = quotechar then Some (fs, f, QUOTE_IN_QUOTED_FIELD)
      else Some (fs, f @ [c], IN_QUOTED_FIELD))"
| "process_char (fs, f, QUOTE_IN_QUOTED_FIELD) None = Some (fs @ [f], [], START_RECORD)"
| "process_char (fs, f, QUOTE_IN_QUOTED_FIELD) (Some c) =
     (if c = quotechar then Some (fs, f @ [c], IN_QUOTED_FIELD)
      else if c = delimiter then Some (fs @ [f], [], START_FIELD)
      else if is_nl c then Some (fs @ [f], [], EAT_CRNL)
      else Some (fs, f @ [c], IN_FIELD))"
| "process_char (fs, f, EAT_CRNL) None = Some (fs, f, START_RECORD)"
| "process_char (fs, f, EAT_CRNL) (Some c) =
     (if is_nl c then Some (fs, f, EAT_CRNL) else None)"

fun process_line :: "csv_parser \<Rightarrow> string \<Rightarrow> csv_parser option" where
  "process_line p [] = process_char p None"
| "process_line p (c # cs) =
     (case process_char p (Some c) of None \<Rightarrow> None | Some p' \<Rightarrow> process_line p' cs)"

definition default_csv_feed :: "csv_parser option \<Rightarrow> bytes \<Rightarrow> csv_parser fed" where
  "default_csv_feed p l =
     (case process_line (case p of None \<Rightarrow> ([], [], START_RECORD) | Some q \<Rightarrow> q) l of
        None \<Rightarrow> Csv_raised
      | Some (fs, f, st) \<Rightarrow> if st = START_RECORD then Row fs else More (fs, f, st))"

definition default_csv_flush :: "csv_parser \<Rightarrow> row" where
  "default_csv_flush p = (case p of (fs, f, st) \<Rightarrow> fs @ [f])"

definition plain_columns :: "string list \<Rightarrow> string list option" where
  "plain_columns cs = (if cs \<noteq> [] \<and> distinct cs \<and> (\<forall>c \<in> set cs. sq \<notin> set c) then Some cs else None)"

definition no_footprints :: "database \<Rightarrow> event list option" where
  "no_footprints db = Some []"

definition test_runtime :: "(nat, csv_parser) runtime" where
  "test_runtime =
     \<lparr>lzma_decompress = framed_decompress, lzma_new = 1,
      csv_feed = default_csv_feed, csv_flush = default_csv_flush,
      sqlite_columns = plain_columns, stock_refresh = no_footprints, elapsed = ''0.00''\<rparr>"

definition small_response :: response where
  "small_response =
     \<lparr>status_code = 200, content_length = Some 25,
      body = [''Hid,name'' @ CRLF @ ''1,a'' @ CRLF, ''2,b'' @ CRLF @ ''3,c'' @ CRLF]\<rparr>"

definition old_database :: database where
  "old_database = \<lparr>parts = Some ([''x''], [[''old'']]), rotation = Some [(''^R'', ''90'')]\<rparr>"


text \<open>
  Two events are the same up to the reported size when they are equal, or are progress
  events for the same number of bytes read.
\<close>

definition same_but_size :: "event \<Rightarrow> event \<Rightarrow> bool" where
  "same_but_size e f =
     (case (e, f) of
        (UpdateGaugeEvent a s, UpdateGaugeEvent b t) \<Rightarrow> a = b
      | _ \<Rightarrow> e = f)"

subsection \<open>Properties of download\<close>

lemma same_but_size_refl: "same_but_size e e"
  by (cases e) (simp_all add: same_but_size_def)

lemma list_all2_same_refl: "list_all2 same_but_size es es"
  by (simp add: list_all2_refl same_but_size_refl)

lemma rotation_delete_parts_table: "rotation (delete_parts_table db) = rotation db"
  by (simp add: delete_parts_table_def)

lemma rotation_create_parts_table:
  "create_parts_table rt cols db = Inr db' \<Longrightarrow> rotation db' = rotation db"
  by (auto simp: create_parts_table_def split: option.splits)

lemma rotation_create_rotation_table:
  "rotation db = Some rs \<Longrightarrow> rotation (create_rotation_table db) = Some rs"
  by (simp add: create_rotation_table_def)

lemma rotation_commit: "rotation (commit rows db) = rotation db"
  by (simp add: commit_def split: option.splits prod.splits)

lemma rotation_finish: "rotation (store (finish rt db st)) = rotation db"
  by (simp add: finish_def Let_def rotation_commit split: option.splits)

lemma import_csv_keeps_rotation_table:
  assumes "rotation db = Some rs"
  shows "rotation (store (import_csv rt r db fsize)) = Some rs"
proof -
  have a: "rotation (delete_parts_table db) = Some rs"
    using assms by (simp add: rotation_delete_parts_table)
  have b: "\<And>cols db'. create_parts_table rt cols (delete_parts_table db) = Inr db'
             \<Longrightarrow> rotation (create_rotation_table db') = Some rs"
    using a by (simp add: rotation_create_parts_table rotation_create_rotation_table)
  show ?thesis
    unfolding import_csv_def Let_def
    using assms a b
    by (simp add: rotation_finish
             split: option.splits prod.splits list.splits sum.splits)
qed

text \<open>
  C8. Whatever the response and however the run ends, \<open>download\<close> leaves an existing
  rotation table with exactly the rows it had: only the parts table is dropped and
  created again.
\<close>

theorem download_keeps_rotation_table:
  "rotation db = Some rs \<Longrightarrow> rotation (store (download rt r db)) = Some rs"
  by (simp add: download_def Let_def import_csv_keeps_rotation_table split: option.splits)

definition same_load :: "load_state \<Rightarrow> load_state \<Rightarrow> bool" where
  "same_load st1 st2 \<longleftrightarrow>
     inserted st1 = inserted st2 \<and> batches st1 = batches st2 \<and>
     list_all2 same_but_size (gauge st1) (gauge st2)"

lemma executemany_same:
  "same_load st1 st2 \<Longrightarrow>
     (case (executemany n m buffer st1, executemany n m buffer st2) of
        (None, None) \<Rightarrow> True
      | (Some a, Some b) \<Rightarrow> same_load a b
      | _ \<Rightarrow> False)"
  by (simp add: executemany_def same_load_def)

lemma load_rows_same:
  assumes "s1 \<noteq> 0" and "s2 \<noteq> 0"
  shows "same_load st1 st2 \<Longrightarrow>
     (case (load_rows n m s1 nbytes count items buffer st1,
            load_rows n m s2 nbytes count items buffer st2) of
        (Inl (x, a), Inl (y, b)) \<Rightarrow> x = y \<and> same_load a b
      | (Inr (b1, a), Inr (b2, b)) \<Rightarrow> b1 = b2 \<and> same_load a b
      | _ \<Rightarrow> False)"
proof (induction items arbitrary: count buffer st1 st2)
  case Nil
  then show ?case by simp
next
  case (Cons item items)
  obtain r s where item: "item = (r, s)" by (cases item)
  show ?case
  proof (cases "count mod 1000 = 0")
    case False
    with Cons.IH[OF Cons.prems] show ?thesis by (simp add: item)
  next
    case True
    let ?g = "UpdateGaugeEvent (nbytes - length (concat (iter s)))"
    let ?st1 = "st1\<lparr>gauge := gauge st1 @ [?g s1]\<rparr>"
    let ?st2 = "st2\<lparr>gauge := gauge st2 @ [?g s2]\<rparr>"
    have sl: "same_load ?st1 ?st2"
      using Cons.prems by (simp add: same_load_def same_but_size_def list_all2_appendI)
    show ?thesis
    proof (cases "executemany n m (buffer @ [r]) ?st1")
      case None
      with executemany_same[OF sl, of n m "buffer @ [r]"]
      have "executemany n m (buffer @ [r]) ?st2 = None" by (simp split: option.splits)
      with None True assms sl show ?thesis by (simp add: item)
    next
      case (Some a)
      with executemany_same[OF sl, of n m "buffer @ [r]"]
      obtain b where b: "executemany n m (buffer @ [r]) ?st2 = Some b" and ab: "same_load a b"
        by (auto split: option.splits)
      from Cons.IH[OF ab] Some b True assms show ?thesis by (simp add: item)
    qed
  qed
qed

lemma finish_same:
  assumes "same_load st1 st2"
  shows "store (finish rt db st1) = store (finish rt db st2) \<and>
         inserts (finish rt db st1) = inserts (finish rt db st2) \<and>
         raised (finish rt db st1) = raised (finish rt db st2) \<and>
         list_all2 same_but_size (events (finish rt db st1)) (events (finish rt db st2))"
  using assms
  by (auto simp: finish_def Let_def same_load_def list_all2_appendI list_all2_same_refl
                 same_but_size_refl
           split: option.splits)

definition same_outcome :: "download_outcome \<Rightarrow> download_outcome \<Rightarrow> bool" where
  "same_outcome a b \<longleftrightarrow>
     store a = store b \<and> inserts a = inserts b \<and> raised a = raised b \<and>
     list_all2 same_but_size (events a) (events b)"

lemma import_csv_same:
  assumes "s1 \<noteq> 0" and "s2 \<noteq> 0"
  shows "same_outcome (import_csv rt r db s1) (import_csv rt r db s2)"
proof (cases "csv_reader rt None (new_reader (lzma_new rt) (body r))")
  case (Pair items e)
  show ?thesis
  proof (cases items)
    case Nil
    with Pair show ?thesis by (simp add: import_csv_def Let_def same_outcome_def)
  next
    case (Cons item rest)
    obtain headers s where item: "item = (headers, s)" by (cases item)
    show ?thesis
    proof (cases "create_parts_table rt headers (delete_parts_table db)")
      case (Inl x)
      with Pair Cons item show ?thesis by (simp add: import_csv_def Let_def same_outcome_def)
    next
      case (Inr db2)
      let ?db = "create_rotation_table db2"
      let ?n = "length headers"
      let ?m = "column_count ?db"
      let ?st = "\<lparr>inserted = [], batches = [], gauge = []\<rparr>"
      let ?nb = "length (concat (body r))"
      have st: "same_load ?st ?st" by (simp add: same_load_def)
      note rel = load_rows_same[OF assms st, of ?n ?m ?nb 0 rest "[]"]
      show ?thesis
      proof (cases "load_rows ?n ?m s1 ?nb 0 rest [] ?st")
        case l1: (Inl xa)
        obtain x a where xa: "xa = (x, a)" by (cases xa)
        from rel l1 xa obtain b where l2: "load_rows ?n ?m s2 ?nb 0 rest [] ?st = Inl (x, b)"
          and ab: "same_load a b"
          by (auto split: sum.splits prod.splits)
        from Pair Cons item Inr l1 xa l2 ab show ?thesis
          by (simp add: import_csv_def Let_def same_outcome_def same_load_def)
      next
        case r1: (Inr ba)
        obtain buf a where ba: "ba = (buf, a)" by (cases ba)
        from rel r1 ba obtain b where r2: "load_rows ?n ?m s2 ?nb 0 rest [] ?st = Inr (buf, b)"
          and ab: "same_load a b"
          by (auto split: sum.splits prod.splits)
        show ?thesis
        proof (cases "e = Aborted \<or> buf = []")
          case True
          with Pair Cons item Inr r1 ba r2 ab finish_same[OF ab, of rt ?db] show ?thesis
            by (auto simp: import_csv_def Let_def same_outcome_def same_load_def)
        next
          case False
          show ?thesis
          proof (cases "executemany ?n ?m buf a")
            case None
            with executemany_same[OF ab, of ?n ?m buf]
            have "executemany ?n ?m buf b = None" by (simp split: option.splits)
            with None False Pair Cons item Inr r1 ba r2 ab show ?thesis
              by (simp add: import_csv_def Let_def same_outcome_def same_load_def)
          next
            case (Some a')
            with executemany_same[OF ab, of ?n ?m buf]
            obtain b' where eb: "executemany ?n ?m buf b = Some b'" and ab': "same_load a' b'"
              by (auto split: option.splits)
            from Some eb False Pair Cons item Inr r1 ba r2 finish_same[OF ab', of rt ?db]
            show ?thesis
              by (simp add: import_csv_def Let_def same_outcome_def)
          qed
        qed
      qed
    qed
  qed
qed

lemma readline_exhausted:
  "iter s = [] \<Longrightarrow> chunk s = [] \<Longrightarrow> find_bytes (linebuf s) CRLF = - 1 \<Longrightarrow>
     readline decompress s = StopIteration s"
  by (subst readline.simps) (simp add: read_def)

lemma csv_reader_exhausted:
  "iter s = [] \<Longrightarrow> chunk s = [] \<Longrightarrow> find_bytes (linebuf s) CRLF = - 1 \<Longrightarrow>
     csv_reader rt None s = ([], Ended)"
  by (subst csv_reader.simps) (simp add: readline_exhausted)

lemma import_csv_no_block:
  "body r = [] \<Longrightarrow>
     import_csv rt r db fsize
       = \<lparr>store = db, events = [], inserts = [], raised = Some Stop_iteration\<rparr>"
  by (simp add: import_csv_def csv_reader_exhausted new_reader_def find_CRLF_Nil)

text \<open>
  Where the size check falls through. For a response with status 200 whose reported
  length is below 1000, \<open>download\<close> posts the "file too small" message right after the
  first gauge reset and then goes on as it does for a length of 1000 or more: the same
  database, the same batches, the same exception if any, and the same events up to the
  size the progress values are computed from. This holds for every reported length other
  than 0, and for a length of 0 when no block is delivered.
\<close>

lemma small_size_notifies_and_imports:
  assumes "status_code r = 200" and "s1 < 1000" and "1000 \<le> s2"
    and "s1 = 0 \<Longrightarrow> body r = []"
  shows "take 2 (events (download rt (r\<lparr>content_length := Some s1\<rparr>) db))
           = [ResetGaugeEvent, too_small s1] \<and>
         list_all2 same_but_size
           (drop 2 (events (download rt (r\<lparr>content_length := Some s1\<rparr>) db)))
           (drop 1 (events (download rt (r\<lparr>content_length := Some s2\<rparr>) db))) \<and>
         store (download rt (r\<lparr>content_length := Some s1\<rparr>) db)
           = store (download rt (r\<lparr>content_length := Some s2\<rparr>) db) \<and>
         inserts (download rt (r\<lparr>content_length := Some s1\<rparr>) db)
           = inserts (download rt (r\<lparr>content_length := Some s2\<rparr>) db) \<and>
         raised (download rt (r\<lparr>content_length := Some s1\<rparr>) db)
           = raised (download rt (r\<lparr>content_length := Some s2\<rparr>) db)"
proof -
  have s2: "s2 \<noteq> 0" using assms(3) by simp
  have b: "import_csv rt (r\<lparr>content_length := Some s1\<rparr>) db = import_csv rt r db"
    "import_csv rt (r\<lparr>content_length := Some s2\<rparr>) db = import_csv rt r db"
    by (simp_all add: import_csv_def fun_eq_iff)
  have "same_outcome (import_csv rt r db s1) (import_csv rt r db s2)"
  proof (cases "s1 = 0")
    case True
    with assms(4) have "body r = []" by simp
    then show ?thesis by (simp add: import_csv_no_block same_outcome_def)
  next
    case False
    from import_csv_same[OF False s2] show ?thesis .
  qed
  with assms(1,2,3) show ?thesis
    by (simp add: download_def Let_def b same_outcome_def)
qed

text \<open>
  A reported length of 0 with data rows in the stream: the progress of the first data
  row is \<open>r.raw.tell() / size * 100\<close>, which raises \<open>ZeroDivisionError\<close> after the
  parts table was dropped and created anew and before any row is inserted.
\<close>

lemma size_zero_with_rows_raises:
  assumes "status_code r = 200" and "content_length r = Some 0"
    and "csv_reader rt None (new_reader (lzma_new rt) (body r)) = ((headers, s) # item # rest, e)"
    and "sqlite_columns rt headers = Some cs"
  shows "raised (download rt r db) = Some ZeroDivisionError \<and>
         inserts (download rt r db) = [] \<and>
         parts (store (download rt r db)) = Some (cs, [])"
proof -
  obtain row s' where item: "item = (row, s')" by (cases item)
  have c: "create_parts_table rt headers (delete_parts_table db)
             = Inr (delete_parts_table db\<lparr>parts := Some (cs, [])\<rparr>)"
    using assms(4) by (simp add: create_parts_table_def delete_parts_table_def)
  have p: "parts (create_rotation_table (delete_parts_table db\<lparr>parts := Some (cs, [])\<rparr>))
             = Some (cs, [])"
    by (simp add: create_rotation_table_def split: option.splits)
  from assms(1,2,3) c p item show ?thesis
    by (simp add: download_def import_csv_def Let_def)
qed

text \<open>
  C6 does not hold of the code for a reported length of 0 with content delivered (a
  server that sends \<open>Content-Length: 0\<close> together with chunked transfer encoding: the
  header is ignored for the transfer and \<open>iter_content\<close> delivers the chunks). The same
  25 bytes, a header line and three rows, are imported when the reported length is 25
  (below the threshold) or 2000; with a reported length of 0 the worker ends with
  \<open>ZeroDivisionError\<close> at the first data row, no row is inserted and the new parts
  table stays empty.
\<close>

theorem size_zero_aborts_import:
  "raised (download test_runtime (small_response\<lparr>content_length := Some 0\<rparr>) old_database)
     = Some ZeroDivisionError \<and>
   inserts (download test_runtime (small_response\<lparr>content_length := Some 0\<rparr>) old_database)
     = [] \<and>
   parts (store (download test_runtime (small_response\<lparr>content_length := Some 0\<rparr>) old_database))
     = Some ([''id'', ''name''], []) \<and>
   raised (download test_runtime (small_response\<lparr>content_length := Some 25\<rparr>) old_database)
     = None \<and>
   parts (store (download test_runtime (small_response\<lparr>content_length := Some 25\<rparr>) old_database))
     = Some ([''id'', ''name''], [[''1'', ''a''], [''2'', ''b''], [''3'', ''c'']]) \<and>
   raised (download test_runtime (small_response\<lparr>content_length := Some 2000\<rparr>) old_database)
     = None \<and>
   parts (store (download test_runtime (small_response\<lparr>content_length := Some 2000\<rparr>) old_database))
     = Some ([''id'', ''name''], [[''1'', ''a''], [''2'', ''b''], [''3'', ''c'']])"
  by code_simp

theorem download_keeps_rotation_table_witness:
  "rotation old_database = Some [(''^R'', ''90'')] \<and>
   rotation (store (download test_runtime small_response old_database)) = Some [(''^R'', ''90'')] \<and>
   parts (store (download test_runtime small_response old_database))
     = Some ([''id'', ''name''], [[''1'', ''a''], [''2'', ''b''], [''3'', ''c'']])"
proof -
  have h: "rotation old_database = Some [(''^R'', ''90'')]" by (simp add: old_database_def)
  have p: "parts (store (download test_runtime small_response old_database))
     = Some ([''id'', ''name''], [[''1'', ''a''], [''2'', ''b''], [''3'', ''c'']])" by code_simp
  from download_keeps_rotation_table[OF h, of test_runtime small_response] h p
  show ?thesis by simp
qed


subsection \<open>The batches of the loop\<close>

lemma load_rows_fill:
  "0 < count mod 1000 \<Longrightarrow> count mod 1000 + length rs \<le> 1000 \<Longrightarrow>
     load_rows n m fsize nbytes count (rs @ rest) buffer st
       = load_rows n m fsize nbytes (count + length rs) rest (buffer @ map fst rs) st"
proof (induction rs arbitrary: count buffer)
  case Nil
  then show ?case by simp
next
  case (Cons item rs)
  obtain r s where item: "item = (r, s)" by (cases item)
  show ?case
  proof (cases "rs = []")
    case True
    with Cons.prems(1) show ?thesis by (simp add: item)
  next
    case False
    with Cons.prems(2) have lt: "Suc (count mod 1000) < 1000" by (cases rs) auto
    then have m: "Suc count mod 1000 = Suc (count mod 1000)" by (simp add: mod_Suc)
    have "0 < Suc count mod 1000" and "Suc count mod 1000 + length rs \<le> 1000"
      using m Cons.prems(2) by simp_all
    from Cons.IH[OF this] Cons.prems(1) show ?thesis by (simp add: item)
  qed
qed

lemma load_rows_fill_end:
  "0 < count mod 1000 \<Longrightarrow> count mod 1000 + length rs \<le> 1000 \<Longrightarrow>
     load_rows n m fsize nbytes count rs buffer st = Inr (buffer @ map fst rs, st)"
  using load_rows_fill[of count rs n m fsize nbytes "[]" buffer st] by simp

lemma load_rows_flush:
  assumes "count mod 1000 = 0" and "fsize \<noteq> 0" and "0 < n"
    and "\<forall>x \<in> set (buffer @ [r]). length x = n"
  shows "load_rows n n fsize nbytes count ((r, s) # rest) buffer st
       = load_rows n n fsize nbytes (Suc count) rest []
           (st\<lparr>gauge := gauge st @ [UpdateGaugeEvent (nbytes - length (concat (iter s))) fsize],
               inserted := inserted st @ buffer @ [r],
               batches := batches st @ [buffer @ [r]]\<rparr>)"
  using assms by (simp add: executemany_def Let_def)

declare load_rows.simps [simp del]

definition row5 :: row where
  "row5 = [''C1'', ''a'', ''b'', ''c'', ''d'']"

lemma split2500: "replicate 2500 x
      = x # (replicate 999 x @ x # (replicate 999 x @ x # (replicate 499 x @ [])))"
proof -
  have "replicate 2500 x = replicate (1 + (999 + (1 + (999 + (1 + 499))))) x" by simp
  also have "\<dots> = replicate 1 x @ replicate 999 x @ replicate 1 x @ replicate 999 x @ replicate 1 x @ replicate 499 x"
    unfolding replicate_add by simp
  finally show ?thesis by simp
qed

lemma load_2500_rows:
  fixes s :: "'d LZMAIterReader"
  assumes "fsize \<noteq> 0"
  shows "\<exists>st. load_rows 5 5 fsize nbytes 0 (replicate 2500 (row5, s)) []
                  \<lparr>inserted = [], batches = [], gauge = []\<rparr>
                = Inr (replicate 499 row5, st) \<and>
              batches st = [[row5], replicate 1000 row5, replicate 1000 row5] \<and>
              length (inserted st) = 2001"
proof -
  let ?x = "(row5, s)"
  have len: "length row5 = 5" by (simp add: row5_def)
  have "replicate 1000 row5 = replicate (999 + 1) row5" by simp
  then have r1000: "replicate 999 row5 @ [row5] = replicate 1000 row5"
    unfolding replicate_add by simp
  show ?thesis
    unfolding split2500
    apply (subst load_rows_flush; (simp add: assms len)?)
    apply (subst load_rows_fill; (simp add: assms len)?)
    apply (subst load_rows_flush; (simp add: assms len)?)
    apply (subst load_rows_fill; (simp add: assms len)?)
    apply (subst load_rows_flush; (simp add: assms len)?)
    apply (subst load_rows_fill_end; (simp add: assms len r1000)?)
    done
qed

text \<open>
  C2. The batches are cut one row early: \<open>count % 1000 == 0\<close> holds for the first data
  row (\<open>count\<close> is 0), so the first \<open>executemany\<close> inserts that row alone. Three data
  rows are inserted as batches of 1 and 2; 2500 data rows of a 5-column table are inserted
  as batches of 1, 1000, 1000 and, at the end of the stream, 499.
\<close>

theorem first_row_is_a_batch_of_its_own:
  "inserts (download test_runtime small_response old_database)
     = [[[''1'', ''a'']], [[''2'', ''b''], [''3'', ''c'']]] \<and>
   (\<exists>buffer st st'.
      load_rows 5 5 2500000 0 0 (replicate 2500 (row5, new_reader (1::nat) [])) []
          \<lparr>inserted = [], batches = [], gauge = []\<rparr> = Inr (buffer, st) \<and>
      executemany 5 5 buffer st = Some st' \<and>
      map length (batches st') = [1, 1000, 1000, 499] \<and>
      length (inserted st') = 2500)"
proof -
  have a: "inserts (download test_runtime small_response old_database)
     = [[[''1'', ''a'']], [[''2'', ''b''], [''3'', ''c'']]]"
    by code_simp
  have "(2500000::int) \<noteq> 0" by simp
  from load_2500_rows[OF this, of 0 "new_reader (1::nat) []"] obtain st where
    l: "load_rows 5 5 2500000 0 0 (replicate 2500 (row5, new_reader (1::nat) [])) []
          \<lparr>inserted = [], batches = [], gauge = []\<rparr> = Inr (replicate 499 row5, st)"
    and b: "batches st = [[row5], replicate 1000 row5, replicate 1000 row5]"
    and i: "length (inserted st) = 2001"
    by blast
  have e: "executemany 5 5 (replicate 499 row5) st
             = Some (st\<lparr>inserted := inserted st @ replicate 499 row5,
                       batches := batches st @ [replicate 499 row5]\<rparr>)"
    by (simp add: executemany_def row5_def)
  from a l e b i show ?thesis by auto
qed

theorem first_row_is_a_batch_of_its_own_witness:
  "set (replicate 499 row5) = {row5} \<and> length row5 = 5 \<and>
   inserts (download test_runtime small_response old_database)
     = [[[''1'', ''a'']], [[''2'', ''b''], [''3'', ''c'']]]"
  using first_row_is_a_batch_of_its_own by (simp add: row5_def)


section \<open>gencsv (gencsv.py)\<close>

text \<open>
  A row of \<open>v_components\<close> with the columns that \<open>gencsv\<close> selects: integers for
  \<open>lcsc\<close>, \<open>joints\<close>, \<open>basic\<close> and \<open>stock\<close>, text for the others. The column
  \<open>price\<close> holds JSON, read by \<open>json.loads\<close>: the model keeps the list of tiers it
  yields, every tier with its \<open>qFrom\<close> and \<open>qTo\<close> (an integer or null) and the text
  that \<open>str\<close> prints for its \<open>price\<close> (a float, whose printing is Python's).
\<close>

record price_tier =
  qFrom :: "int option"
  qTo :: "int option"
  price :: string

record component =
  lcsc :: int
  category :: string
  subcategory :: string
  mfr :: string
  package :: string
  joints :: int
  manufacturer :: string
  basic :: int
  description :: string
  datasheet :: string
  stock :: int
  price :: "price_tier list"

text \<open>
  The header row, the text of one tier (a bound that is null or 0 is falsy and prints as
  nothing), and the row written for a component, with the fields as \<open>csv.writer\<close>
  prints them (\<open>str\<close> of the integers).
\<close>

definition gencsv_header :: row where
  "gencsv_header =
     [''LCSC Part'', ''First Category'', ''Second Category'', ''MFR.Part'', ''Package'',
      ''Solder Joint'', ''Manufacturer'', ''Library Type'', ''Description'', ''Datasheet'',
      ''Price'', ''Stock'']"

definition tier_text :: "price_tier \<Rightarrow> string" where
  "tier_text t =
     (let pricestr = (case qFrom t of None \<Rightarrow> [] | Some q \<Rightarrow> if q \<noteq> 0 then str_int q else []);
          pricestr = pricestr @ ''-'';
          pricestr = (case qTo t of None \<Rightarrow> pricestr
                      | Some q \<Rightarrow> if q \<noteq> 0 then pricestr @ str_int q else pricestr);
          pricestr = pricestr @ '':''
      in pricestr @ price_tier.price t)"

definition gencsv_row :: "component \<Rightarrow> row" where
  "gencsv_row r =
     (let libtype = (if basic r = 0 then ''Basic'' else ''Extended'');
          pricestr = join '','' (map tier_text (price r))
      in [''C'' @ str_int (lcsc r), category r, subcategory r, mfr r, package r,
          str_int (joints r), manufacturer r, libtype, description r, datasheet r,
          pricestr, str_int (stock r)])"

text \<open>
  \<open>gencsv\<close> writes the rows with \<open>csv.writer\<close> into an \<open>LZMAFile\<close>: \<open>writerow\<close>
  gives the bytes written for a row (the text encoded as UTF-8), \<open>compress\<close> the file
  for the bytes written; both are the standard library's.
\<close>

definition gencsv_rows :: "component list \<Rightarrow> row list" where
  "gencsv_rows comps = gencsv_header # map gencsv_row comps"

definition gencsv :: "(row \<Rightarrow> bytes) \<Rightarrow> (bytes \<Rightarrow> bytes) \<Rightarrow> component list \<Rightarrow> bytes" where
  "gencsv writerow compress comps = compress (concat (map writerow (gencsv_rows comps)))"

text \<open>
  To run the export on concrete components: \<open>csv.writer\<close> in its default dialect (a
  field is quoted when it holds the delimiter, a quote or a line break, with quotes
  doubled; the line terminator is CR LF), and the compressor of the framed format.
\<close>

definition needs_quotes :: "string \<Rightarrow> bool" where
  "needs_quotes f = list_ex (\<lambda>c. c = delimiter \<or> c = quotechar \<or> is_nl c) f"

definition quote_field :: "string \<Rightarrow> string" where
  "quote_field f =
     [quotechar] @ concat (map (\<lambda>c. if c = quotechar then [c, c] else [c]) f) @ [quotechar]"

definition default_writerow :: "row \<Rightarrow> bytes" where
  "default_writerow r =
     (if r = [[]] then [quotechar, quotechar]
      else join '','' (map (\<lambda>f. if needs_quotes f then quote_field f else f) r)) @ CRLF"

definition framed_compress :: "bytes \<Rightarrow> bytes" where
  "framed_compress data = CHR ''H'' # data"

subsection \<open>Reading back what was written\<close>

text \<open>
  The csv reader as a function of the list of lines; the text that the blocks of a body
  decode to when every block decodes to at least one byte; and the readers whose blocks
  are of that kind.
\<close>

fun parse_lines ::
  "('d, 'p) runtime \<Rightarrow> 'p option \<Rightarrow> bytes list \<Rightarrow> row list \<times> stream_end" where
  "parse_lines rt p [] = (case p of None \<Rightarrow> ([], Ended) | Some q \<Rightarrow> ([csv_flush rt q], Ended))"
| "parse_lines rt p (l # ls) =
     (case csv_feed rt p l of
        Csv_raised \<Rightarrow> ([], Aborted)
      | Row r \<Rightarrow> yield r (parse_lines rt None ls)
      | More q \<Rightarrow> parse_lines rt (Some q) ls)"

fun decode_blocks :: "'d decompressor \<Rightarrow> 'd \<Rightarrow> bytes list \<Rightarrow> bytes option" where
  "decode_blocks decompress d [] = Some []"
| "decode_blocks decompress d (c # cs) =
     (case decompress d c of
        None \<Rightarrow> None
      | Some (d', out) \<Rightarrow>
          if out = [] then None
          else (case decode_blocks decompress d' cs of None \<Rightarrow> None | Some t \<Rightarrow> Some (out @ t)))"

definition good :: "'d decompressor \<Rightarrow> 'd LZMAIterReader \<Rightarrow> bool" where
  "good decompress s \<longleftrightarrow> chunk s = [] \<and> decode_blocks decompress (lzmad s) (iter s) \<noteq> None"

lemma decode_blocks_pending:
  "decode_blocks decompress d bs = Some t \<Longrightarrow> pending_text decompress d bs = t"
  by (induction bs arbitrary: d t) (auto split: option.splits if_splits)

lemma read_good:
  "good decompress s \<Longrightarrow>
     (case read decompress s of
        Data newdata s' \<Rightarrow> newdata \<noteq> [] \<and> good decompress s' \<and> linebuf s' = linebuf s
      | Exhausted \<Rightarrow> iter s = []
      | Decompress_failed \<Rightarrow> False)"
  by (auto simp: good_def read_def hand_out_def split: list.splits option.splits if_splits)

lemma readline_good:
  "good decompress s \<Longrightarrow>
     (case readline decompress s of
        Line l s' \<Rightarrow> good decompress s'
      | StopIteration s' \<Rightarrow> iter s' = [] \<and> chunk s' = [] \<and> find_bytes (linebuf s') CRLF = - 1
      | Raised \<Rightarrow> False)"
proof (induction decompress s rule: readline.induct)
  case (1 decompress s)
  show ?case
  proof (cases "find_bytes (linebuf s) CRLF = - 1")
    case True
    show ?thesis
    proof (cases "read decompress s")
      case (Data newdata s1)
      with read_good[OF "1.prems"] have ne: "newdata \<noteq> []" and g: "good decompress s1"
        by simp_all
      have g2: "good decompress (s1\<lparr>linebuf := linebuf s1 @ newdata\<rparr>)"
        using g by (simp add: good_def)
      have rl: "readline decompress s = readline decompress (s1\<lparr>linebuf := linebuf s1 @ newdata\<rparr>)"
        using True Data ne by (subst readline.simps) simp
      from "1.IH"[OF refl _ Data _ g2] True ne show ?thesis unfolding rl by simp
    next
      case Exhausted
      with read_good[OF "1.prems"] "1.prems" True show ?thesis
        by (subst readline.simps) (simp add: good_def)
    next
      case Decompress_failed
      with read_good[OF "1.prems"] show ?thesis by simp
    qed
  next
    case False
    with "1.prems" show ?thesis
      by (subst readline.simps) (simp add: Let_def good_def)
  qed
qed

lemma csv_reader_parse_lines:
  "good (lzma_decompress rt) s \<Longrightarrow>
     map fst (fst (csv_reader rt p s)) = fst (parse_lines rt p (lines (lzma_decompress rt) s)) \<and>
     snd (csv_reader rt p s) = snd (parse_lines rt p (lines (lzma_decompress rt) s))"
proof (induction rt p s rule: csv_reader.induct)
  case (1 rt p s)
  let ?dec = "lzma_decompress rt"
  show ?case
  proof (cases "readline ?dec s")
    case Raised
    with readline_good[OF "1.prems"] show ?thesis by simp
  next
    case (StopIteration s')
    with readline_good[OF "1.prems"]
    have e: "csv_reader rt None s' = ([], Ended)" by (simp add: csv_reader_exhausted)
    have l: "lines ?dec s = []" using StopIteration by (subst lines.simps) simp
    show ?thesis
      unfolding l using StopIteration e
      by (subst (1 2) csv_reader.simps) (simp add: yield_def split: option.splits)
  next
    case (Line l s')
    with readline_good[OF "1.prems"] have g: "good ?dec s'" by simp
    have ls: "lines ?dec s = l # lines ?dec s'" using Line by (subst lines.simps) simp
    show ?thesis
    proof (cases "csv_feed rt p l")
      case (Row r)
      from "1.IH"(1)[OF Line Row g] Line Row show ?thesis
        unfolding ls by (subst (1 2) csv_reader.simps) (simp add: yield_def)
    next
      case (More q)
      from "1.IH"(2)[OF Line More g] Line More show ?thesis
        unfolding ls by (subst (1 2) csv_reader.simps) simp
    next
      case Csv_raised
      with Line show ?thesis
        unfolding ls by (subst (1 2) csv_reader.simps) simp
    qed
  qed
qed

lemma load_rows_all:
  assumes "fsize \<noteq> 0" and "0 < n"
  shows "\<forall>r \<in> set buffer. length r = n \<Longrightarrow> \<forall>x \<in> set items. length (fst x) = n \<Longrightarrow>
     \<exists>buffer' st'. load_rows n n fsize nbytes count items buffer st = Inr (buffer', st') \<and>
        inserted st' @ buffer' = inserted st @ buffer @ map fst items \<and>
        (\<forall>r \<in> set buffer'. length r = n)"
proof (induction items arbitrary: count buffer st)
  case Nil
  then show ?case by (simp add: load_rows.simps)
next
  case (Cons item items)
  obtain r s where item: "item = (r, s)" by (cases item)
  from Cons.prems item have lr: "length r = n" and rest: "\<forall>x \<in> set items. length (fst x) = n"
    by simp_all
  show ?case
  proof (cases "count mod 1000 = 0")
    case False
    have b: "\<forall>x \<in> set (buffer @ [r]). length x = n" using Cons.prems(1) lr by simp
    from Cons.IH[OF b rest, of "Suc count" st] False show ?thesis
      by (simp add: item load_rows.simps)
  next
    case True
    let ?st = "st\<lparr>gauge := gauge st @ [UpdateGaugeEvent (nbytes - length (concat (iter s))) fsize],
                   inserted := inserted st @ buffer @ [r],
                   batches := batches st @ [buffer @ [r]]\<rparr>"
    have b: "\<forall>x \<in> set (buffer @ [r]). length x = n" using Cons.prems(1) lr by simp
    have e: "\<forall>x \<in> set ([]::row list). length x = n" by simp
    from Cons.IH[OF e rest, of "Suc count" ?st] show ?thesis
      unfolding item load_rows_flush[OF True assms b] by simp
  qed
qed

lemma parts_finish: "parts (store (finish rt db st)) = parts (commit (inserted st) db)"
  by (simp add: finish_def Let_def split: option.splits)

lemma import_csv_stores_rows:
  assumes items: "csv_reader rt None (new_reader (lzma_new rt) (body r)) = (items, Ended)"
    and rows: "map fst items = header # rows"
    and cols: "sqlite_columns rt header = Some header"
    and size: "fsize \<noteq> 0"
    and width: "header \<noteq> []" "\<forall>x \<in> set rows. length x = length header"
  shows "parts (store (import_csv rt r db fsize)) = Some (header, rows)"
proof -
  from rows obtain s rest where it: "items = (header, s) # rest" and rest: "map fst rest = rows"
    by (cases items) auto
  let ?db1 = "delete_parts_table db"
  let ?db2 = "?db1\<lparr>parts := Some (header, [])\<rparr>"
  let ?db = "create_rotation_table ?db2"
  let ?n = "length header"
  have c: "create_parts_table rt header ?db1 = Inr ?db2"
    using cols by (simp add: create_parts_table_def delete_parts_table_def)
  have p: "parts ?db = Some (header, [])"
    by (simp add: create_rotation_table_def split: option.splits)
  have m: "column_count ?db = ?n" by (simp add: column_count_def p)
  have n0: "0 < ?n" using width(1) by simp
  have w: "\<forall>x \<in> set rest. length (fst x) = ?n"
    using width(2) unfolding rest[symmetric] by simp
  have e: "\<forall>x \<in> set ([]::row list). length x = ?n" by simp
  from load_rows_all[OF size n0 e w, of "length (concat (body r))" 0
         "\<lparr>inserted = [], batches = [], gauge = []\<rparr>"]
  obtain buffer st where
    l: "load_rows ?n ?n fsize (length (concat (body r))) 0 rest []
          \<lparr>inserted = [], batches = [], gauge = []\<rparr> = Inr (buffer, st)"
    and i: "inserted st @ buffer = rows" and b: "\<forall>x \<in> set buffer. length x = ?n"
    using rest by auto
  show ?thesis
  proof (cases "buffer = []")
    case True
    with items it c m l i p show ?thesis
      by (simp add: import_csv_def Let_def parts_finish commit_def)
  next
    case False
    have "executemany ?n ?n buffer st
            = Some (st\<lparr>inserted := inserted st @ buffer, batches := batches st @ [buffer]\<rparr>)"
      using n0 b by (simp add: executemany_def)
    with False items it c m l i p show ?thesis
      by (simp add: import_csv_def Let_def parts_finish commit_def)
  qed
qed

lemma length_gencsv_row: "length (gencsv_row c) = 12"
  by (simp add: gencsv_row_def Let_def)

text \<open>
  The round trip holds for the deliveries in which every block decodes to at least one
  byte. The response has status 200 and a reported length other than 0; the standard
  library and SQLite do their part: the blocks of the body decode, each to at least one
  byte, to the bytes that were compressed; \<open>csv.reader\<close>, given the CR LF lines of the
  text that \<open>csv.writer\<close> wrote, returns the rows written; the header is accepted as
  the column list. Then the parts table after \<open>download\<close> has the header as its
  columns and exactly the exported rows, field by field, in their order.
\<close>

lemma round_trip_when_every_block_decodes:
  assumes "status_code r = 200" and "content_length r = Some fsize" and "fsize \<noteq> 0"
    and "decode_blocks (lzma_decompress rt) (lzma_new rt) (body r)
           = Some (concat (map writerow (gencsv_rows comps)))"
    and "parse_lines rt None (split_lines (concat (map writerow (gencsv_rows comps))))
           = (gencsv_rows comps, Ended)"
    and "sqlite_columns rt gencsv_header = Some gencsv_header"
  shows "parts (store (download rt r db)) = Some (gencsv_header, map gencsv_row comps)"
proof -
  let ?dec = "lzma_decompress rt"
  let ?s = "new_reader (lzma_new rt) (body r)"
  let ?plain = "concat (map writerow (gencsv_rows comps))"
  have g: "good ?dec ?s" using assms(4) by (simp add: good_def new_reader_def)
  have t: "text_ahead ?dec ?s = ?plain"
    using decode_blocks_pending[OF assms(4)] by (simp add: text_ahead_def new_reader_def)
  have l: "lines ?dec ?s = split_lines ?plain" by (simp add: lines_split t)
  obtain items e where ie: "csv_reader rt None ?s = (items, e)" by (cases "csv_reader rt None ?s")
  from csv_reader_parse_lines[OF g, of None] ie assms(5)
  have rows: "map fst items = gencsv_header # map gencsv_row comps" and e: "e = Ended"
    unfolding l by (simp_all add: gencsv_rows_def)
  have w: "gencsv_header \<noteq> []" "\<forall>x \<in> set (map gencsv_row comps). length x = length gencsv_header"
    by (simp_all add: gencsv_header_def length_gencsv_row)
  from import_csv_stores_rows[OF ie[unfolded e] rows assms(6) assms(3) w, of db]
  show ?thesis
    using assms(1,2) by (simp add: download_def Let_def)
qed

text \<open>
  A first block that decodes to no byte ends the import before the header is read:
  \<open>read\<close> returns the empty output, \<open>readline\<close> takes it for the end of the stream
  and raises \<open>StopIteration\<close> out of \<open>next(csv_reader)\<close>, whatever the blocks that
  follow hold. The database is left as it was.
\<close>

lemma first_block_without_output_stops_import:
  assumes "status_code r = 200" and "content_length r = Some fsize"
    and "body r = b # bs" and "lzma_decompress rt (lzma_new rt) b = Some (d, [])"
  shows "store (download rt r db) = db \<and> inserts (download rt r db) = [] \<and>
         raised (download rt r db) = Some Stop_iteration"
proof -
  let ?s = "new_reader (lzma_new rt) (body r)"
  have "read (lzma_decompress rt) ?s = Exhausted \<or>
        (\<exists>s'. read (lzma_decompress rt) ?s = Data [] s')"
    using assms(3,4) by (simp add: read_def hand_out_def new_reader_def)
  then have "\<exists>s'. readline (lzma_decompress rt) ?s = StopIteration s'"
    by (subst readline.simps) (auto simp: new_reader_def find_CRLF_Nil)
  then have "csv_reader rt None ?s = ([], Ended)"
    by (subst csv_reader.simps) auto
  then show ?thesis
    using assms(1,2) by (simp add: download_def import_csv_def Let_def)
qed

text \<open>
  Two components with multi-tier prices, and two deliveries of the file that \<open>gencsv\<close>
  writes for them: in two blocks of which the first is the one byte of the stream
  header, and in two blocks cut after 100 bytes.
\<close>

definition sample_parts :: "component list" where
  "sample_parts =
     [\<lparr>lcsc = 25804, category = ''Resistors'', subcategory = ''Chip Resistor'',
       mfr = ''0603WAF1002T5E'', package = ''0603'', joints = 2, manufacturer = ''UNI-ROYAL'',
       basic = 0, description = ''10k, 1%'', datasheet = ''https://example.org/r.pdf'',
       stock = 1200,
       price = [\<lparr>qFrom = Some 1, qTo = Some 99, price = ''0.005''\<rparr>,
                \<lparr>qFrom = Some 100, qTo = None, price = ''0.003''\<rparr>]\<rparr>,
      \<lparr>lcsc = 7, category = ''Capacitors'', subcategory = ''MLCC'',
       mfr = ''CL10'', package = ''0402'', joints = 2, manufacturer = ''Samsung'',
       basic = 1, description = ''100nF'', datasheet = [],
       stock = 0,
       price = [\<lparr>qFrom = Some 0, qTo = Some 9, price = ''0.02''\<rparr>,
                \<lparr>qFrom = Some 10, qTo = Some 99, price = ''0.01''\<rparr>,
                \<lparr>qFrom = Some 100, qTo = None, price = ''0.008''\<rparr>]\<rparr>]"

definition export_response :: response where
  "export_response =
     \<lparr>status_code = 200, content_length = Some 358,
      body = [take 100 (gencsv default_writerow framed_compress sample_parts),
              drop 100 (gencsv default_writerow framed_compress sample_parts)]\<rparr>"

definition cut_response :: response where
  "cut_response =
     \<lparr>status_code = 200, content_length = Some 358,
      body = [take 1 (gencsv default_writerow framed_compress sample_parts),
              drop 1 (gencsv default_writerow framed_compress sample_parts)]\<rparr>"

lemma sample_rows:
  "map gencsv_row sample_parts =
     [[''C25804'', ''Resistors'', ''Chip Resistor'', ''0603WAF1002T5E'', ''0603'', ''2'',
       ''UNI-ROYAL'', ''Basic'', ''10k, 1%'', ''https://example.org/r.pdf'',
       ''1-99:0.005,100-:0.003'', ''1200''],
      [''C7'', ''Capacitors'', ''MLCC'', ''CL10'', ''0402'', ''2'', ''Samsung'', ''Extended'',
       ''100nF'', [], ''-9:0.02,10-99:0.01,100-:0.008'', ''0'']]"
  by (simp add: sample_parts_def gencsv_row_def tier_text_def str_int_def str_nat.simps
        digit_def Let_def)

lemma export_response_round_trip:
  "parts (store (download test_runtime export_response old_database))
     = Some (gencsv_header, map gencsv_row sample_parts)"
proof -
  have h1: "status_code export_response = 200" by (simp add: export_response_def)
  have h2: "content_length export_response = Some 358" by (simp add: export_response_def)
  have h3: "(358::int) \<noteq> 0" by simp
  have h4: "decode_blocks (lzma_decompress test_runtime) (lzma_new test_runtime) (body export_response)
     = Some (concat (map default_writerow (gencsv_rows sample_parts)))"
    unfolding export_response_def gencsv_def gencsv_rows_def sample_rows by code_simp
  have h5: "parse_lines test_runtime None
       (split_lines (concat (map default_writerow (gencsv_rows sample_parts))))
     = (gencsv_rows sample_parts, Ended)"
    unfolding gencsv_rows_def sample_rows by code_simp
  have h6: "sqlite_columns test_runtime gencsv_header = Some gencsv_header" by code_simp
  from round_trip_when_every_block_decodes[OF h1 h2 h3 h4 h5 h6, of old_database]
  show ?thesis .
qed

lemma cut_response_stops:
  "store (download test_runtime cut_response old_database) = old_database \<and>
   inserts (download test_runtime cut_response old_database) = [] \<and>
   raised (download test_runtime cut_response old_database) = Some Stop_iteration"
proof -
  have h1: "status_code cut_response = 200" by (simp add: cut_response_def)
  have h2: "content_length cut_response = Some 358" by (simp add: cut_response_def)
  have h3: "body cut_response = ''H'' # [drop 1 (gencsv default_writerow framed_compress sample_parts)]"
    by (simp add: cut_response_def gencsv_def framed_compress_def)
  have h4: "lzma_decompress test_runtime (lzma_new test_runtime) ''H'' = Some (0, [])"
    by (simp add: test_runtime_def framed_decompress_def)
  from first_block_without_output_stops_import[OF h1 h2 h3 h4] show ?thesis .
qed

lemma export_cut_after_first_byte_is_not_imported:
  "store (download test_runtime
            \<lparr>status_code = 200, content_length = Some fsize,
             body = [take 1 (gencsv writerow framed_compress comps),
                     drop 1 (gencsv writerow framed_compress comps)]\<rparr> db) = db \<and>
   raised (download test_runtime
            \<lparr>status_code = 200, content_length = Some fsize,
             body = [take 1 (gencsv writerow framed_compress comps),
                     drop 1 (gencsv writerow framed_compress comps)]\<rparr> db) = Some Stop_iteration"
proof -
  let ?r = "\<lparr>status_code = 200, content_length = Some fsize,
             body = [take 1 (gencsv writerow framed_compress comps),
                     drop 1 (gencsv writerow framed_compress comps)]\<rparr>"
  have h1: "status_code ?r = 200" by simp
  have h2: "content_length ?r = Some fsize" by simp
  have h3: "body ?r = ''H'' # [drop 1 (gencsv writerow framed_compress comps)]"
    by (simp add: gencsv_def framed_compress_def)
  have h4: "lzma_decompress test_runtime (lzma_new test_runtime) ''H'' = Some (0, [])"
    by (simp add: test_runtime_def framed_decompress_def)
  from first_block_without_output_stops_import[OF h1 h2 h3 h4, of db] show ?thesis by simp
qed

text \<open>
  C9 does not hold of the code, through the defect of C1. The file exported for the two
  components is stored row for row, with the Library Type and the price strings as
  exported, when it is delivered cut after 100 bytes. Delivered cut after its first
  byte, the same file is not imported at all: the first block decodes to nothing,
  the worker ends with \<open>StopIteration\<close> and the parts table is the old one.
\<close>

theorem export_round_trip_depends_on_block_boundaries:
  "concat (body export_response) = gencsv default_writerow framed_compress sample_parts \<and>
   concat (body cut_response) = gencsv default_writerow framed_compress sample_parts \<and>
   parts (store (download test_runtime export_response old_database))
     = Some (gencsv_header,
         [[''C25804'', ''Resistors'', ''Chip Resistor'', ''0603WAF1002T5E'', ''0603'', ''2'',
           ''UNI-ROYAL'', ''Basic'', ''10k, 1%'', ''https://example.org/r.pdf'',
           ''1-99:0.005,100-:0.003'', ''1200''],
          [''C7'', ''Capacitors'', ''MLCC'', ''CL10'', ''0402'', ''2'', ''Samsung'', ''Extended'',
           ''100nF'', [], ''-9:0.02,10-99:0.01,100-:0.008'', ''0'']]) \<and>
   raised (download test_runtime cut_response old_database) = Some Stop_iteration \<and>
   inserts (download test_runtime cut_response old_database) = [] \<and>
   parts (store (download test_runtime cut_response old_database)) = Some ([''x''], [[''old'']])"
proof -
  have c: "concat (body export_response) = gencsv default_writerow framed_compress sample_parts"
    "concat (body cut_response) = gencsv default_writerow framed_compress sample_parts"
    by (simp_all add: export_response_def cut_response_def)
  have o: "parts old_database = Some ([''x''], [[''old'']])" by (simp add: old_database_def)
  from c export_response_round_trip cut_response_stops o show ?thesis
    by (simp add: sample_rows)
qed

end
